theory Spec2Isabelle
  imports Main "HOL-Library.Word" "HOL-Library.Sublist"
begin

unbundle bit_operations_syntax

section \<open>Errors\<close>

text \<open>
  The source builds its errors with \<open>fmt.Errorf\<close>; each call site is one constructor
  here, carrying the values the message is formatted from. \<open>InvalidPatternSyntax\<close>
  stands for the error \<open>regexp.Compile\<close> returns.
\<close>

datatype error =
    MissingPathSeparator string
  | EmptyPattern
  | InvalidCondition string
  | DuplicateVariable string string
  | InvalidPatternSyntax string
  | OutsideBasePath string string

section \<open>Condition flags (route/cond.go)\<close>

type_synonym CondFlags = "64 word"

definition CondMethodGET :: CondFlags where "CondMethodGET = 1"
definition CondMethodCONNECT :: CondFlags where "CondMethodCONNECT = 2"
definition CondMethodDELETE :: CondFlags where "CondMethodDELETE = 4"
definition CondMethodHEAD :: CondFlags where "CondMethodHEAD = 8"
definition CondMethodOPTIONS :: CondFlags where "CondMethodOPTIONS = 16"
definition CondMethodPATCH :: CondFlags where "CondMethodPATCH = 32"
definition CondMethodPOST :: CondFlags where "CondMethodPOST = 64"
definition CondMethodPUT :: CondFlags where "CondMethodPUT = 128"
definition CondMethodTRACE :: CondFlags where "CondMethodTRACE = 256"

lemmas CondMethod_defs =
  CondMethodGET_def CondMethodCONNECT_def CondMethodDELETE_def CondMethodHEAD_def
  CondMethodOPTIONS_def CondMethodPATCH_def CondMethodPOST_def CondMethodPUT_def
  CondMethodTRACE_def

text \<open>\<open>CondFlags.String\<close>: the string builder is the accumulator \<open>sb\<close>.\<close>

definition CondFlags_String :: "CondFlags \<Rightarrow> string" where
  "CondFlags_String fl =
     (if fl = 0 then ''*''
      else
        let sb = [];
            sb = (if fl AND CondMethodGET \<noteq> 0 then sb @ ''|GET'' else sb);
            sb = (if fl AND CondMethodCONNECT \<noteq> 0 then sb @ ''|CONNECT'' else sb);
            sb = (if fl AND CondMethodDELETE \<noteq> 0 then sb @ ''|DELETE'' else sb);
            sb = (if fl AND CondMethodHEAD \<noteq> 0 then sb @ ''|HEAD'' else sb);
            sb = (if fl AND CondMethodOPTIONS \<noteq> 0 then sb @ ''|OPTIONS'' else sb);
            sb = (if fl AND CondMethodPATCH \<noteq> 0 then sb @ ''|PATCH'' else sb);
            sb = (if fl AND CondMethodPOST \<noteq> 0 then sb @ ''|POST'' else sb);
            sb = (if fl AND CondMethodPUT \<noteq> 0 then sb @ ''|PUT'' else sb);
            sb = (if fl AND CondMethodTRACE \<noteq> 0 then sb @ ''|TRACE'' else sb)
        in if length sb = 0 then ''*'' else drop 1 sb)"

text \<open>
  \<open>ParseCondFlags\<close>: the \<open>for ... range tokens\<close> loop with its \<open>switch\<close>; the
  \<open>default\<close> branch returns from inside the loop.
\<close>

fun ParseCondFlags_loop :: "CondFlags \<Rightarrow> string list \<Rightarrow> error + CondFlags" where
  "ParseCondFlags_loop f [] = Inr f"
| "ParseCondFlags_loop f (tok # toks) =
     (if tok = ''GET'' then ParseCondFlags_loop (f OR CondMethodGET) toks
      else if tok = ''CONNECT'' then ParseCondFlags_loop (f OR CondMethodCONNECT) toks
      else if tok = ''DELETE'' then ParseCondFlags_loop (f OR CondMethodDELETE) toks
      else if tok = ''HEAD'' then ParseCondFlags_loop (f OR CondMethodHEAD) toks
      else if tok = ''OPTIONS'' then ParseCondFlags_loop (f OR CondMethodOPTIONS) toks
      else if tok = ''PATCH'' then ParseCondFlags_loop (f OR CondMethodPATCH) toks
      else if tok = ''POST'' then ParseCondFlags_loop (f OR CondMethodPOST) toks
      else if tok = ''PUT'' then ParseCondFlags_loop (f OR CondMethodPUT) toks
      else if tok = ''TRACE'' then ParseCondFlags_loop (f OR CondMethodTRACE) toks
      else Inl (InvalidCondition tok))"

definition ParseCondFlags :: "string list \<Rightarrow> error + CondFlags" where
  "ParseCondFlags tokens =
     (if length tokens = 1 \<and> tokens ! 0 = ''*'' then Inr 0
      else ParseCondFlags_loop 0 tokens)"

text \<open>
  The canonical method order of the spec: the order of the constant block and of the
  branches of \<open>CondFlags.String\<close>.
\<close>

definition canonical_methods :: "(CondFlags \<times> string) list" where
  "canonical_methods =
     [(CondMethodGET, ''GET''), (CondMethodCONNECT, ''CONNECT''),
      (CondMethodDELETE, ''DELETE''), (CondMethodHEAD, ''HEAD''),
      (CondMethodOPTIONS, ''OPTIONS''), (CondMethodPATCH, ''PATCH''),
      (CondMethodPOST, ''POST''), (CondMethodPUT, ''PUT''), (CondMethodTRACE, ''TRACE'')]"

definition defined_method_bits :: CondFlags where
  "defined_method_bits = 511"

text \<open>The methods of a list whose bit is set in \<open>fl\<close>, in the order of the list.\<close>

definition set_methods ::
  "CondFlags \<Rightarrow> (CondFlags \<times> string) list \<Rightarrow> (CondFlags \<times> string) list" where
  "set_methods fl ms = filter (\<lambda>(b, n). fl AND b \<noteq> 0) ms"

text \<open>Joining with a separator (\<open>strings.Join\<close>) and splitting on one byte (\<open>strings.Split\<close>).\<close>

fun join :: "string \<Rightarrow> string list \<Rightarrow> string" where
  "join sep [] = []"
| "join sep [x] = x"
| "join sep (x # y # ys) = x @ sep @ join sep (y # ys)"

fun split_on :: "char \<Rightarrow> string \<Rightarrow> string list" where
  "split_on c [] = [[]]"
| "split_on c (x # xs) =
     (if x = c then [] # split_on c xs
      else (case split_on c xs of p # ps \<Rightarrow> (x # p) # ps | [] \<Rightarrow> [[x]]))"

section \<open>Library functions the route compiler calls\<close>

text \<open>
  Strings are Go strings: byte sequences. \<open>s[a:b]\<close> is \<open>substring s a b\<close>; every substring
  the compiler takes has its bounds from an index search on the same string.
\<close>

definition substring :: "string \<Rightarrow> nat \<Rightarrow> nat \<Rightarrow> string" where
  "substring s a b = take (b - a) (drop a s)"

definition HasPrefix :: "string \<Rightarrow> string \<Rightarrow> bool" where
  "HasPrefix s p = prefix p s"

text \<open>\<open>strings.IndexByte\<close>: \<open>None\<close> is the result -1.\<close>

fun IndexByte :: "string \<Rightarrow> char \<Rightarrow> nat option" where
  "IndexByte [] c = None"
| "IndexByte (x # xs) c = (if x = c then Some 0 else map_option Suc (IndexByte xs c))"

text \<open>
  \<open>strings.TrimSpace\<close> removes leading and trailing white space as Unicode defines it
  (\<open>unicode.IsSpace\<close>). On the bytes of a string these are the UTF-8 encodings below:
  the six ASCII characters, U+0085, U+00A0, U+1680, U+2000 to U+200A, U+2028, U+2029,
  U+202F, U+205F and U+3000.
\<close>

definition space_runes :: "string list" where
  "space_runes =
     [[CHR 0x09], [CHR 0x0A], [CHR 0x0B], [CHR 0x0C], [CHR 0x0D], [CHR 0x20],
      [CHR 0xC2, CHR 0x85], [CHR 0xC2, CHR 0xA0], [CHR 0xE1, CHR 0x9A, CHR 0x80],
      [CHR 0xE2, CHR 0x80, CHR 0x80], [CHR 0xE2, CHR 0x80, CHR 0x81],
      [CHR 0xE2, CHR 0x80, CHR 0x82], [CHR 0xE2, CHR 0x80, CHR 0x83],
      [CHR 0xE2, CHR 0x80, CHR 0x84], [CHR 0xE2, CHR 0x80, CHR 0x85],
      [CHR 0xE2, CHR 0x80, CHR 0x86], [CHR 0xE2, CHR 0x80, CHR 0x87],
      [CHR 0xE2, CHR 0x80, CHR 0x88], [CHR 0xE2, CHR 0x80, CHR 0x89],
      [CHR 0xE2, CHR 0x80, CHR 0x8A], [CHR 0xE2, CHR 0x80, CHR 0xA8],
      [CHR 0xE2, CHR 0x80, CHR 0xA9], [CHR 0xE2, CHR 0x80, CHR 0xAF],
      [CHR 0xE2, CHR 0x81, CHR 0x9F], [CHR 0xE3, CHR 0x80, CHR 0x80]]"

function strip_prefixes :: "string list \<Rightarrow> string \<Rightarrow> string" where
  "strip_prefixes ws s =
     (case find (\<lambda>w. w \<noteq> [] \<and> prefix w s) ws of
        None \<Rightarrow> s
      | Some w \<Rightarrow> strip_prefixes ws (drop (length w) s))"
  by pat_completeness auto
termination
proof (relation "measure (\<lambda>(ws, s). length s)")
  show "wf (measure (\<lambda>(ws, s). length s))" by simp
next
  fix ws :: "string list" and s w :: string
  assume "find (\<lambda>w. w \<noteq> [] \<and> prefix w s) ws = Some w"
  then have "w \<noteq> []" and "prefix w s"
    by (auto simp: find_Some_iff)
  then have "s \<noteq> []" by auto
  with \<open>w \<noteq> []\<close> show "((ws, drop (length w) s), (ws, s)) \<in> measure (\<lambda>(ws, s). length s)"
    by simp
qed

definition TrimSpace :: "string \<Rightarrow> string" where
  "TrimSpace s = rev (strip_prefixes (map rev space_runes) (rev (strip_prefixes space_runes s)))"

text \<open>\<open>strings.Trim\<close> with a cutset of ASCII characters works byte by byte.\<close>

definition Trim :: "string \<Rightarrow> string \<Rightarrow> string" where
  "Trim s cutset =
     rev (dropWhile (\<lambda>c. c \<in> set cutset) (rev (dropWhile (\<lambda>c. c \<in> set cutset) s)))"

text \<open>
  \<open>regexp.QuoteMeta\<close> puts a backslash before each of the bytes
  \<^verbatim>\<open>\.+*?()|[]{}^$\<close>.
\<close>

definition specialBytes :: "char list" where
  "specialBytes =
     [CHR 0x5C, CHR ''.'', CHR ''+'', CHR ''*'', CHR ''?'', CHR ''('', CHR '')'', CHR ''|'',
      CHR ''['', CHR '']'', CHR ''{'', CHR ''}'', CHR ''^'', CHR ''$'']"

definition QuoteMeta :: "string \<Rightarrow> string" where
  "QuoteMeta s = concat (map (\<lambda>c. if c \<in> set specialBytes then [CHR 0x5C, c] else [c]) s)"

text \<open>The classes \<^verbatim>\<open>\s\<close> and \<^verbatim>\<open>\w\<close> of Go's regular expressions (ASCII only).\<close>

definition is_space :: "char \<Rightarrow> bool" where
  "is_space c = (c \<in> set [CHR 0x09, CHR 0x0A, CHR 0x0C, CHR 0x0D, CHR 0x20])"

definition is_word :: "char \<Rightarrow> bool" where
  "is_word c =
     (c \<in> set ''0123456789ABCDEFGHIJKLMNOPQRSTUVWXYZabcdefghijklmnopqrstuvwxyz_'')"

section \<open>The two fixed regular expressions of route/route.go\<close>

text \<open>
  \<open>reSplitOR\<close> is \<^verbatim>\<open>\s*\|\s*\<close>. A match at the start of \<open>s\<close> is a run of white space,
  a bar and a run of white space, both runs as long as possible; \<open>reSplitOR_at\<close> gives
  its length. \<open>Split\<close> looks for the leftmost match from the current position, cuts the
  piece before it, and goes on after it; the last piece is what remains.
\<close>

definition reSplitOR_at :: "string \<Rightarrow> nat option" where
  "reSplitOR_at s =
     (case dropWhile is_space s of
        [] \<Rightarrow> None
      | c # r \<Rightarrow>
          if c = CHR ''|''
          then Some (length (takeWhile is_space s) + 1 + length (takeWhile is_space r))
          else None)"

function reSplitOR_pieces :: "string \<Rightarrow> string \<Rightarrow> string list" where
  "reSplitOR_pieces cur s =
     (case s of
        [] \<Rightarrow> [cur]
      | c # cs \<Rightarrow>
          (case reSplitOR_at s of
             Some n \<Rightarrow> cur # reSplitOR_pieces [] (drop n s)
           | None \<Rightarrow> reSplitOR_pieces (cur @ [c]) cs))"
  by pat_completeness auto
termination
proof (relation "measure (\<lambda>(cur, s). length s)")
  fix cur s :: string and c cs n
  assume "s = c # cs" and "reSplitOR_at s = Some n"
  then have "0 < n"
    by (auto simp: reSplitOR_at_def split: list.splits if_splits)
  with \<open>s = c # cs\<close> show "(([], drop n s), (cur, s)) \<in> measure (\<lambda>(cur, s). length s)"
    by simp
qed auto

definition reSplitOR_Split :: "string \<Rightarrow> string list" where
  "reSplitOR_Split s = reSplitOR_pieces [] s"

text \<open>
  \<open>reMatchVars\<close> is \<^verbatim>\<open>\{(?P<key>\w+)(?:\:\s*(?P<value>[^\}]*)|)\s*\}\<close>. A match at
  the start of \<open>s\<close>: an opening brace, the longest run of word characters (not empty),
  then either a colon, white space, and everything up to the next closing brace (the
  group \<open>value\<close> starts after the white space), or white space and a closing brace
  (the group \<open>value\<close> takes no part, its indices are -1: \<open>None\<close>).
  \<open>loc\<close> is one element of \<open>FindAllSubmatchIndex\<close>: \<open>loc[0]\<close> to \<open>loc[5]\<close>.
\<close>

record loc =
  varStart :: nat
  varEnd :: nat
  keyStart :: nat
  keyEnd :: nat
  valSpan :: "(nat \<times> nat) option"

definition reMatchVars_at :: "nat \<Rightarrow> string \<Rightarrow> loc option" where
  "reMatchVars_at p s =
     (case s of
        [] \<Rightarrow> None
      | c # r \<Rightarrow>
          if c \<noteq> CHR ''{'' then None
          else
            let key = takeWhile is_word r; r1 = dropWhile is_word r
            in if key = [] then None
               else
                 (case r1 of
                    [] \<Rightarrow> None
                  | d # r2 \<Rightarrow>
                      if d = CHR '':''
                      then
                        (let ws = takeWhile is_space r2;
                             r3 = dropWhile is_space r2;
                             val = takeWhile (\<lambda>x. x \<noteq> CHR ''}'') r3;
                             r4 = dropWhile (\<lambda>x. x \<noteq> CHR ''}'') r3;
                             vs = p + 1 + length key + 1 + length ws
                         in if r4 = [] then None
                            else Some \<lparr>varStart = p, varEnd = vs + length val + 1,
                                       keyStart = p + 1, keyEnd = p + 1 + length key,
                                       valSpan = Some (vs, vs + length val)\<rparr>)
                      else
                        (let ws = takeWhile is_space r1; r3 = dropWhile is_space r1
                         in case r3 of
                              [] \<Rightarrow> None
                            | e # r4 \<Rightarrow>
                                if e = CHR ''}''
                                then Some \<lparr>varStart = p,
                                           varEnd = p + 1 + length key + length ws + 1,
                                           keyStart = p + 1, keyEnd = p + 1 + length key,
                                           valSpan = None\<rparr>
                                else None)))"

text \<open>
  \<open>FindAllSubmatchIndex(b, -1)\<close>: the successive leftmost matches, each search
  starting where the previous match ended. \<open>p\<close> is the position of \<open>s\<close> in the
  whole string. (A match is at least three bytes long.)
\<close>

function reMatchVars_FindAll :: "nat \<Rightarrow> string \<Rightarrow> loc list" where
  "reMatchVars_FindAll p s =
     (if s = [] then []
      else
        (case reMatchVars_at p s of
           Some l \<Rightarrow> l # reMatchVars_FindAll (varEnd l) (drop (varEnd l - p) s)
         | None \<Rightarrow> reMatchVars_FindAll (Suc p) (tl s)))"
  by pat_completeness auto
termination
proof (relation "measure (\<lambda>(p, s). length s)")
  fix p s l
  assume "s \<noteq> []" and "reMatchVars_at p s = Some l"
  then have "p < varEnd l"
    by (auto simp: reMatchVars_at_def Let_def split: list.splits if_splits)
  moreover from \<open>s \<noteq> []\<close> have "0 < length s" by simp
  ultimately have "length s - (varEnd l - p) < length s" by arith
  then show "((varEnd l, drop (varEnd l - p) s), (p, s)) \<in> measure (\<lambda>(p, s). length s)"
    by simp
qed auto

definition reMatchVars_FindAllSubmatchIndex :: "string \<Rightarrow> loc list" where
  "reMatchVars_FindAllSubmatchIndex s = reMatchVars_FindAll 0 s"

section \<open>The regular expression library\<close>

text \<open>
  Go's \<open>regexp\<close> package is not part of the repository: it is a parameter of the
  model. \<open>Compile\<close> is \<open>regexp.Compile\<close> (\<open>None\<close> when it returns an error),
  \<open>FindStringSubmatch\<close> is the method of that name (the empty list is \<open>nil\<close>, no
  match), and \<open>'re\<close> is the type of compiled expressions.
\<close>

record 're regexp_lib =
  Compile :: "string \<Rightarrow> 're option"
  FindStringSubmatch :: "'re \<Rightarrow> string \<Rightarrow> string list"

section \<open>Routes (route/route.go)\<close>

text \<open>
  \<open>Vars\<close> is a Go map from names to match positions. The compiler only ever stores
  under a name it has just found absent, so the map is the list of its entries in the
  order they were stored; \<open>len(r.Vars)\<close> is its length and a lookup is \<open>map_of\<close>.
  \<open>Handler\<close> is the \<open>interface{}\<close> the caller supplies (\<open>None\<close> is \<open>nil\<close>).
\<close>

record ('re, 'h) Route =
  Conditions :: CondFlags
  Pattern :: "'re option"
  Vars :: "(string \<times> nat) list"
  EntryPrefix :: string
  IsPrefix :: bool
  Handler :: "'h option"

text \<open>The zero value \<open>Route{}\<close>.\<close>

definition Route_zero :: "('re, 'h) Route" where
  "Route_zero =
     \<lparr>Conditions = 0, Pattern = None, Vars = [], EntryPrefix = [], IsPrefix = False,
      Handler = None\<rparr>"

definition defaultVarPattern :: string where
  "defaultVarPattern = ''[^/]+''"

text \<open>
  The loop \<open>for varIndex, loc := range locations\<close> of \<open>Route.Parse\<close>. Its state is the
  route, \<open>resultPattern\<close> and \<open>plainStart\<close>; a duplicate variable returns from inside
  the loop, with the route as it then is.
\<close>

fun Parse_vars ::
  "string \<Rightarrow> nat \<Rightarrow> loc list \<Rightarrow> ('re, 'h) Route \<Rightarrow> string \<Rightarrow> nat \<Rightarrow>
     (('re, 'h) Route \<times> error) + (('re, 'h) Route \<times> string \<times> nat)" where
  "Parse_vars pathPattern varIndex [] r resultPattern plainStart =
     Inr (r, resultPattern, plainStart)"
| "Parse_vars pathPattern varIndex (l # locations) r resultPattern plainStart =
     (let chunk = substring pathPattern plainStart (varStart l);
          r = (if plainStart < varStart l \<and> plainStart = 0
               then r\<lparr>EntryPrefix := chunk\<rparr> else r);
          resultPattern = (if plainStart < varStart l
                           then resultPattern @ QuoteMeta chunk else resultPattern);
          plainStart = varEnd l;
          varName = substring pathPattern (keyStart l) (keyEnd l);
          pat = (case valSpan l of
                   None \<Rightarrow> defaultVarPattern
                 | Some (a, b) \<Rightarrow>
                     (let pat = substring pathPattern a b
                      in if length pat = 0 then defaultVarPattern else pat))
      in if varName \<noteq> ''_'' \<and> map_of (Vars r) varName \<noteq> None
         then Inl (r, DuplicateVariable varName pathPattern)
         else
           let r = (if varName \<noteq> ''_''
                    then r\<lparr>Vars := Vars r @ [(varName, varIndex)]\<rparr> else r);
               resultPattern = resultPattern @ ''('' @ pat @ '')''
           in Parse_vars pathPattern (Suc varIndex) locations r resultPattern plainStart)"

text \<open>
  \<open>Route.Parse\<close> works on the route in place and returns an error or \<open>nil\<close>: the
  model returns the route as the call leaves it, and the error if there is one. The
  function is written in three parts, in the order of the source: \<open>Route_Parse\<close> is
  its beginning, up to the conditions; \<open>Parse_path\<close> goes on from the comment
  \<open>prefix?\<close> to the search for variables and the return of a route without variables;
  \<open>Parse_assemble\<close> is the rest, from \<open>has vars; will build r.Pattern\<close>.
\<close>

definition Parse_assemble ::
  "'re regexp_lib \<Rightarrow> ('re, 'h) Route \<Rightarrow> string \<Rightarrow> loc list \<Rightarrow> ('re, 'h) Route \<times> error option" where
  "Parse_assemble lib r pathPattern locations =
     (case Parse_vars pathPattern 0 locations (r\<lparr>EntryPrefix := [], Vars := []\<rparr>) ''^'' 0 of
        Inl (r, err) \<Rightarrow> (r, Some err)
      | Inr (r, resultPattern, plainStart) \<Rightarrow>
          let resultPattern =
                (if plainStart < length pathPattern
                 then resultPattern @ QuoteMeta (drop plainStart pathPattern)
                 else resultPattern);
              resultPattern =
                (if \<not> IsPrefix r then resultPattern @ ''$'' else resultPattern)
          in case Compile lib resultPattern of
               None \<Rightarrow> (r, Some (InvalidPatternSyntax resultPattern))
             | Some re \<Rightarrow> (r\<lparr>Pattern := Some re\<rparr>, None))"

definition Parse_path ::
  "'re regexp_lib \<Rightarrow> ('re, 'h) Route \<Rightarrow> string \<Rightarrow> ('re, 'h) Route \<times> error option" where
  "Parse_path lib r pathPattern =
     (let c = last pathPattern;
          r = (if c = CHR ''/'' then r\<lparr>IsPrefix := True\<rparr> else r);
          pathPattern = (if c \<noteq> CHR ''/'' \<and> c = CHR ''!''
                         then butlast pathPattern else pathPattern);
          locations = reMatchVars_FindAllSubmatchIndex pathPattern
      in if length locations = 0
         then (r\<lparr>EntryPrefix := pathPattern, Vars := [], Pattern := None\<rparr>, None)
         else Parse_assemble lib r pathPattern locations)"

definition Route_Parse ::
  "'re regexp_lib \<Rightarrow> ('re, 'h) Route \<Rightarrow> string \<Rightarrow> ('re, 'h) Route \<times> error option" where
  "Route_Parse lib r ruleText =
     (let pathPattern = TrimSpace ruleText
      in case IndexByte pathPattern CHR ''/'' of
           None \<Rightarrow> (r, Some (MissingPathSeparator pathPattern))
         | Some i \<Rightarrow>
             let condstr = Trim (take i pathPattern)
                             [CHR ''|'', CHR '' '', CHR 0x09, CHR 0x0D, CHR 0x0A];
                 conditions = (if length condstr > 0 then reSplitOR_Split condstr else []);
                 pathPattern = (if length condstr > 0 then drop i pathPattern
                                else pathPattern)
             in if length pathPattern = 0 then (r, Some EmptyPattern)
                else
                  (case ParseCondFlags conditions of
                     Inl err \<Rightarrow> (r, Some err)
                   | Inr conds \<Rightarrow> Parse_path lib (r\<lparr>Conditions := conds\<rparr>) pathPattern))"

section \<open>The route table (route/router.go)\<close>

record ('re, 'h) Router =
  BasePath :: string
  Routes :: "('re, 'h) Route list"

text \<open>
  The first block of \<open>Router.Add\<close>, the checks on \<open>BasePath\<close>. \<open>trimSlashes\<close> is its
  loop \<open>for i := len(r.BasePath) - 1; i >= 0 && r.BasePath[i] == '/'; i--\<close>, counting
  \<open>i + 1\<close>; the loop enters with \<open>i + 1 = len(r.BasePath)\<close> and each turn cuts the
  string to \<open>i\<close> bytes, so the index it reads is always the last byte.
\<close>

fun trimSlashes :: "string \<Rightarrow> nat \<Rightarrow> string" where
  "trimSlashes basePath 0 = basePath"
| "trimSlashes basePath (Suc i) =
     (if basePath ! i = CHR ''/'' then trimSlashes (take i basePath) i else basePath)"

definition Add_BasePath :: "string \<Rightarrow> string" where
  "Add_BasePath basePath =
     (if length basePath > 0 then
        if basePath = ''/'' then []
        else if basePath ! 0 \<noteq> CHR ''/'' then ''/'' @ basePath
        else trimSlashes basePath (length basePath)
      else basePath)"

text \<open>
  What the comments of \<open>Router.Match\<close> say of the base path: if it is not empty, it
  begins with a slash and does not end with one.
\<close>

definition normalized :: "string \<Rightarrow> bool" where
  "normalized basePath =
     (basePath = [] \<or> (hd basePath = CHR ''/'' \<and> last basePath \<noteq> CHR ''/''))"

text \<open>
  \<open>Router.Add\<close> returns a pointer to the new element of \<open>r.Routes\<close>, or \<open>nil\<close> and an
  error. A pointer into \<open>r.Routes\<close> is the index of the element.
\<close>

definition Router_Add ::
  "'re regexp_lib \<Rightarrow> ('re, 'h) Router \<Rightarrow> string \<Rightarrow> 'h \<Rightarrow> ('re, 'h) Router \<times> (error + nat)" where
  "Router_Add lib r pattern handler =
     (let r = r\<lparr>BasePath := Add_BasePath (BasePath r)\<rparr>;
          r = r\<lparr>Routes := Routes r @ [Route_zero]\<rparr>;
          route = length (Routes r) - 1;
          (parsed, err) = Route_Parse lib (Routes r ! route) pattern;
          r = r\<lparr>Routes := (Routes r)[route := parsed]\<rparr>
      in case err of
           Some e \<Rightarrow> (r\<lparr>Routes := take (length (Routes r) - 1) (Routes r)\<rparr>, Inl e)
         | None \<Rightarrow>
             (r\<lparr>Routes := (Routes r)[route := (Routes r ! route)\<lparr>Handler := Some handler\<rparr>]\<rparr>,
              Inr route))"

section \<open>Matching (route/router.go, route/match.go)\<close>

text \<open>
  A \<open>Match\<close> holds the pointer to its route (the index into \<open>Routes\<close>), the path and the
  variable values (\<open>values_m\<close> is the field \<open>values\<close>).
\<close>

record Match =
  RoutePtr :: nat
  Path :: string
  values_m :: "string list"

text \<open>The two \<open>continue\<close> tests of the scan, and its decision on one route.\<close>

definition conditions_skip :: "('re, 'h) Route \<Rightarrow> CondFlags \<Rightarrow> bool" where
  "conditions_skip route conditions =
     (Conditions route \<noteq> 0 \<and> (Conditions route AND conditions) = 0)"

definition prefix_skip :: "('re, 'h) Route \<Rightarrow> string \<Rightarrow> bool" where
  "prefix_skip route path =
     (length (EntryPrefix route) > 0 \<and> \<not> HasPrefix path (EntryPrefix route))"

definition route_try :: "'re regexp_lib \<Rightarrow> ('re, 'h) Route \<Rightarrow> string \<Rightarrow> string list option" where
  "route_try lib route path =
     (case Pattern route of
        None \<Rightarrow> if IsPrefix route \<or> path = EntryPrefix route then Some [] else None
      | Some re \<Rightarrow>
          let vals = FindStringSubmatch lib re path
          in if length vals = 1 + length (Vars route) then Some (drop 1 vals) else None)"

text \<open>The linear scan \<open>for i := range r.Routes\<close>, from route \<open>i\<close> on.\<close>

fun Match_scan ::
  "'re regexp_lib \<Rightarrow> ('re, 'h) Route list \<Rightarrow> nat \<Rightarrow> CondFlags \<Rightarrow> string \<Rightarrow> Match option" where
  "Match_scan lib [] i conditions path = None"
| "Match_scan lib (route # routes) i conditions path =
     (if conditions_skip route conditions then Match_scan lib routes (Suc i) conditions path
      else if prefix_skip route path then Match_scan lib routes (Suc i) conditions path
      else
        (case route_try lib route path of
           Some vals \<Rightarrow> Some \<lparr>RoutePtr = i, Path = path, values_m = vals\<rparr>
         | None \<Rightarrow> Match_scan lib routes (Suc i) conditions path))"

text \<open>\<open>Router.Match\<close>: \<open>Inr None\<close> is the return \<open>nil, nil\<close>, no route found.\<close>

definition Router_Match ::
  "'re regexp_lib \<Rightarrow> ('re, 'h) Router \<Rightarrow> CondFlags \<Rightarrow> string \<Rightarrow> error + Match option" where
  "Router_Match lib r conditions path =
     (if length (BasePath r) > 0 then
        if \<not> HasPrefix path (BasePath r) then Inl (OutsideBasePath path (BasePath r))
        else Inr (Match_scan lib (Routes r) 0 conditions (drop (length (BasePath r)) path))
      else Inr (Match_scan lib (Routes r) 0 conditions path))"



section \<open>Notions the properties are stated with\<close>

text \<open>
  A route matches a request when the scan neither skips it nor fails on it.
  \<open>remaining_path\<close> is the path the scan works on, the request path without the base
  path.
\<close>

definition route_matches ::
  "'re regexp_lib \<Rightarrow> ('re, 'h) Route \<Rightarrow> CondFlags \<Rightarrow> string \<Rightarrow> bool" where
  "route_matches lib route conditions path =
     (\<not> conditions_skip route conditions \<and> \<not> prefix_skip route path \<and>
      route_try lib route path \<noteq> None)"

definition remaining_path :: "('re, 'h) Router \<Rightarrow> string \<Rightarrow> string" where
  "remaining_path r path = drop (length (BasePath r)) path"

text \<open>
  The path pattern of a rule as \<open>Route.Parse\<close> looks for variables in it: the rule text
  trimmed, without the condition clause and without a final exclamation mark. The names
  of its variables, from left to right, are \<open>var_names\<close>.
\<close>

definition rule_pathPattern :: "string \<Rightarrow> string" where
  "rule_pathPattern ruleText =
     (let pathPattern = TrimSpace ruleText
      in case IndexByte pathPattern CHR ''/'' of
           None \<Rightarrow> pathPattern
         | Some i \<Rightarrow>
             let condstr = Trim (take i pathPattern)
                             [CHR ''|'', CHR '' '', CHR 0x09, CHR 0x0D, CHR 0x0A];
                 pathPattern = (if length condstr > 0 then drop i pathPattern
                                else pathPattern)
             in if last pathPattern = CHR ''!'' then butlast pathPattern else pathPattern)"

definition var_names :: "string \<Rightarrow> string list" where
  "var_names pathPattern =
     map (\<lambda>l. substring pathPattern (keyStart l) (keyEnd l))
       (reMatchVars_FindAllSubmatchIndex pathPattern)"

text \<open>
  The variables of a rule that have a name (the anonymous ones are written \<open>_\<close>), each
  with its position among all the variables of the rule.
\<close>

definition named_vars :: "string list \<Rightarrow> (string \<times> nat) list" where
  "named_vars names = filter (\<lambda>(name, index). name \<noteq> ''_'') (zip names [0..<length names])"

text \<open>
  The assembly of the specification: the start anchor, then for each variable, from left
  to right, the quoted literal text before it and its capture group, then the quoted
  literal text after the last variable, then the end anchor unless the route is a subtree
  route. \<open>var_body\<close> is the body of the group: the custom pattern if there is one and
  it is not empty, the default pattern otherwise.
\<close>

definition var_body :: "string \<Rightarrow> loc \<Rightarrow> string" where
  "var_body pathPattern l =
     (case valSpan l of
        None \<Rightarrow> defaultVarPattern
      | Some (a, b) \<Rightarrow>
          if substring pathPattern a b = [] then defaultVarPattern
          else substring pathPattern a b)"

definition assembled_pattern :: "string \<Rightarrow> bool \<Rightarrow> string" where
  "assembled_pattern pathPattern isPrefix =
     (let locations = reMatchVars_FindAllSubmatchIndex pathPattern;
          starts = 0 # map varEnd locations
      in ''^'' @
         concat (map (\<lambda>(start, l).
                        QuoteMeta (substring pathPattern start (varStart l)) @
                        ''('' @ var_body pathPattern l @ '')'')
                   (zip starts locations)) @
         QuoteMeta (drop (last starts) pathPattern) @
         (if isPrefix then [] else ''$''))"





section \<open>A reference regular expression library\<close>

text \<open>
  Most theorems below hold for every library. Their examples need one, and so does the
  theorem on the test of the entry prefix, which is about the paths a compiled pattern
  can match. \<open>go_regexp\<close> implements the part of the syntax of Go's \<open>regexp\<close> that
  the compiled routes of the examples use, on bytes: literals, a backslash before a
  special byte, the classes
  \<^verbatim>\<open>\d\<close>, \<^verbatim>\<open>\w\<close>, \<^verbatim>\<open>\s\<close> and the dot, bracket classes of bytes and ranges (negated
  or not), \<^verbatim>\<open>^\<close> and \<^verbatim>\<open>$\<close>, groups (capturing, or \<^verbatim>\<open>(?:\<close> not capturing),
  alternation, and the greedy operators \<^verbatim>\<open>*\<close>, \<^verbatim>\<open>+\<close>, \<^verbatim>\<open>?\<close>. Anything else does not
  compile here. Matching is leftmost-first, as in Go: the first start position with a
  match, there the first alternative that leads to a match, an iteration before the
  exit of a loop. \<open>FindStringSubmatch\<close> returns the match and the text of each group
  (empty for a group that took no part), or \<open>nil\<close>.
\<close>

datatype rx =
    Lit char
  | Class bool "(char \<times> char) list"
  | Bol
  | Eol
  | Eps
  | Cat rx rx
  | Alt rx rx
  | Star rx
  | Cap nat rx

text \<open>
  A state of the matcher: the position in the text, the text from there on, and the
  groups captured so far (the latest first). \<open>rx_run\<close> lists the states a match of the
  expression can end in, the preferred first; \<open>rx_star\<close> is the loop, each iteration of
  which must advance.
\<close>

type_synonym rx_state = "nat \<times> string \<times> (nat \<times> string) list"

definition in_class :: "bool \<Rightarrow> (char \<times> char) list \<Rightarrow> char \<Rightarrow> bool" where
  "in_class neg ranges c =
     (neg \<noteq> (\<exists>(lo, hi) \<in> set ranges.
                 (of_char lo :: nat) \<le> of_char c \<and> (of_char c :: nat) \<le> of_char hi))"

fun rx_star :: "nat \<Rightarrow> (rx_state \<Rightarrow> rx_state list) \<Rightarrow> rx_state \<Rightarrow> rx_state list" where
  "rx_star 0 f st = [st]"
| "rx_star (Suc n) f st =
     concat (map (rx_star n f) (filter (\<lambda>st'. fst st < fst st') (f st))) @ [st]"

primrec rx_run :: "rx \<Rightarrow> rx_state \<Rightarrow> rx_state list" where
  "rx_run (Lit c) st =
     (case st of (p, s, caps) \<Rightarrow>
        (case s of [] \<Rightarrow> [] | x # xs \<Rightarrow> if x = c then [(Suc p, xs, caps)] else []))"
| "rx_run (Class neg ranges) st =
     (case st of (p, s, caps) \<Rightarrow>
        (case s of [] \<Rightarrow> []
         | x # xs \<Rightarrow> if in_class neg ranges x then [(Suc p, xs, caps)] else []))"
| "rx_run Bol st = (if fst st = 0 then [st] else [])"
| "rx_run Eol st = (if fst (snd st) = [] then [st] else [])"
| "rx_run Eps st = [st]"
| "rx_run (Cat a b) st = concat (map (rx_run b) (rx_run a st))"
| "rx_run (Alt a b) st = rx_run a st @ rx_run b st"
| "rx_run (Star a) st = rx_star (length (fst (snd st))) (rx_run a) st"
| "rx_run (Cap i a) st =
     map (\<lambda>(p', s', caps'). (p', s', (i, take (p' - fst st) (fst (snd st))) # caps'))
       (rx_run a st)"

text \<open>
  The parser. \<open>rx_alt\<close>, \<open>rx_seq\<close> and \<open>rx_atom\<close> read an alternation, a
  concatenation and one atom; the first number bounds the depth of the recursion, the
  second is the index of the next capture group. Each returns the expression, the next
  group index and the text not yet read.
\<close>

fun rx_class_items :: "string \<Rightarrow> (char \<times> char) list \<Rightarrow> ((char \<times> char) list \<times> string) option" where
  "rx_class_items [] acc = None"
| "rx_class_items (c # s) acc =
     (if c = CHR '']'' then Some (acc, s)
      else if c = CHR 0x5C \<or> c = CHR ''['' then None
      else
        (case s of
           d # e # s' \<Rightarrow>
             if d = CHR ''-'' \<and> e \<noteq> CHR '']''
             then (if e = CHR 0x5C \<or> e = CHR ''['' then None
                   else rx_class_items s' (acc @ [(c, e)]))
             else rx_class_items s (acc @ [(c, c)])
         | _ \<Rightarrow> rx_class_items s (acc @ [(c, c)])))"

definition rx_class :: "string \<Rightarrow> (rx \<times> string) option" where
  "rx_class s =
     (let neg = (take 1 s = ''^''); items = (if neg then drop 1 s else s)
      in if take 1 items = '']'' then None
         else map_option (\<lambda>(ranges, rest). (Class neg ranges, rest)) (rx_class_items items []))"

definition rx_postfix :: "rx \<Rightarrow> string \<Rightarrow> (rx \<times> string) option" where
  "rx_postfix a s =
     (case s of
        [] \<Rightarrow> Some (a, s)
      | c # r \<Rightarrow>
          if c \<in> set ''*+?''
          then (case r of
                  d # r' \<Rightarrow> if d \<in> set ''*+?'' then None
                            else Some (if c = CHR ''*'' then Star a
                                       else if c = CHR ''+'' then Cat a (Star a)
                                       else Alt a Eps, r)
                | [] \<Rightarrow> Some (if c = CHR ''*'' then Star a
                              else if c = CHR ''+'' then Cat a (Star a)
                              else Alt a Eps, r))
          else Some (a, s))"

fun rx_alt :: "nat \<Rightarrow> nat \<Rightarrow> string \<Rightarrow> (rx \<times> nat \<times> string) option"
  and rx_seq :: "nat \<Rightarrow> nat \<Rightarrow> string \<Rightarrow> (rx \<times> nat \<times> string) option"
  and rx_atom :: "nat \<Rightarrow> nat \<Rightarrow> string \<Rightarrow> (rx \<times> nat \<times> string) option" where
  "rx_alt 0 g s = None"
| "rx_alt (Suc n) g s =
     (case rx_seq n g s of
        None \<Rightarrow> None
      | Some (a, g1, r) \<Rightarrow>
          (case r of
             [] \<Rightarrow> Some (a, g1, r)
           | c # r' \<Rightarrow>
               if c = CHR ''|''
               then (case rx_alt n g1 r' of
                       None \<Rightarrow> None
                     | Some (b, g2, r'') \<Rightarrow> Some (Alt a b, g2, r''))
               else Some (a, g1, r)))"
| "rx_seq 0 g s = None"
| "rx_seq (Suc n) g s =
     (case s of
        [] \<Rightarrow> Some (Eps, g, s)
      | c # r \<Rightarrow>
          if c = CHR ''|'' \<or> c = CHR '')'' then Some (Eps, g, s)
          else
            (case rx_atom n g s of
               None \<Rightarrow> None
             | Some (a, g1, r1) \<Rightarrow>
                 (case rx_postfix a r1 of
                    None \<Rightarrow> None
                  | Some (a', r2) \<Rightarrow>
                      (case rx_seq n g1 r2 of
                         None \<Rightarrow> None
                       | Some (b, g2, r3) \<Rightarrow> Some (Cat a' b, g2, r3)))))"
| "rx_atom 0 g s = None"
| "rx_atom (Suc n) g s =
     (case s of
        [] \<Rightarrow> None
      | c # r \<Rightarrow>
          if c = CHR ''('' then
            (if take 2 r = ''?:'' then
               (case rx_alt n g (drop 2 r) of
                  None \<Rightarrow> None
                | Some (a, g1, r1) \<Rightarrow>
                    (case r1 of
                       [] \<Rightarrow> None
                     | d # r2 \<Rightarrow> if d = CHR '')'' then Some (a, g1, r2) else None))
             else if take 1 r = ''?'' then None
             else
               (case rx_alt n (Suc g) r of
                  None \<Rightarrow> None
                | Some (a, g1, r1) \<Rightarrow>
                    (case r1 of
                       [] \<Rightarrow> None
                     | d # r2 \<Rightarrow> if d = CHR '')'' then Some (Cap g a, g1, r2) else None)))
          else if c = CHR ''['' then map_option (\<lambda>(a, r1). (a, g, r1)) (rx_class r)
          else if c = CHR 0x5C then
            (case r of
               [] \<Rightarrow> None
             | d # r1 \<Rightarrow>
                 if d \<in> set specialBytes then Some (Lit d, g, r1)
                 else if d = CHR ''d'' then Some (Class False [(CHR ''0'', CHR ''9'')], g, r1)
                 else if d = CHR ''w''
                 then Some (Class False [(CHR ''0'', CHR ''9''), (CHR ''A'', CHR ''Z''),
                                         (CHR ''a'', CHR ''z''), (CHR ''_'', CHR ''_'')], g, r1)
                 else if d = CHR ''s''
                 then Some (Class False [(CHR 0x09, CHR 0x0A), (CHR 0x0C, CHR 0x0D),
                                         (CHR 0x20, CHR 0x20)], g, r1)
                 else None)
          else if c = CHR ''^'' then Some (Bol, g, r)
          else if c = CHR ''$'' then Some (Eol, g, r)
          else if c = CHR ''.'' then Some (Class True [(CHR 0x0A, CHR 0x0A)], g, r)
          else if c \<in> set ''*+?{'' then None
          else Some (Lit c, g, r))"

definition rx_compile :: "string \<Rightarrow> (rx \<times> nat) option" where
  "rx_compile s =
     (case rx_alt (4 * length s + 4) 0 s of
        None \<Rightarrow> None
      | Some (a, g, rest) \<Rightarrow> if rest = [] then Some (a, g) else None)"

text \<open>
  The search: the match at the first start position that has one, with one entry for
  each of the \<open>groups\<close> capture groups.
\<close>

fun rx_search :: "rx \<Rightarrow> nat \<Rightarrow> nat \<Rightarrow> string \<Rightarrow> string list" where
  "rx_search a groups p s =
     (case rx_run a (p, s, []) of
        (p', s', caps) # others \<Rightarrow>
          take (p' - p) s #
          map (\<lambda>i. case map_of caps i of Some v \<Rightarrow> v | None \<Rightarrow> []) [0..<groups]
      | [] \<Rightarrow> (case s of [] \<Rightarrow> [] | c # cs \<Rightarrow> rx_search a groups (Suc p) cs))"

definition rx_find :: "rx \<times> nat \<Rightarrow> string \<Rightarrow> string list" where
  "rx_find re s = rx_search (fst re) (snd re) 0 s"

definition go_regexp :: "(rx \<times> nat) regexp_lib" where
  "go_regexp = \<lparr>Compile = rx_compile, FindStringSubmatch = rx_find\<rparr>"

section \<open>The scenarios of the specification\<close>


definition scenario_B :: "(rx \<times> nat, nat) Router" where
  "scenario_B = fst (Router_Add go_regexp \<lparr>BasePath = ''/api'', Routes = []\<rparr> ''GET /widgets/'' 1)"

text \<open>A table with one exact rule, written with the final exclamation mark.\<close>

definition exact_table :: "(rx \<times> nat, nat) Router" where
  "exact_table = fst (Router_Add go_regexp \<lparr>BasePath = [], Routes = []\<rparr> ''/foo/!'' 1)"

text \<open>
  A table with one rule whose variable is anonymous, and one with a rule whose custom
  pattern closes the capture group and opens an alternative.
\<close>

definition anonymous_table :: "(rx \<times> nat, nat) Router" where
  "anonymous_table = fst (Router_Add go_regexp \<lparr>BasePath = [], Routes = []\<rparr> ''/a/{_}'' 1)"



definition scenario_C :: "(rx \<times> nat, nat) Router" where
  "scenario_C =
     fst (Router_Add go_regexp
            (fst (Router_Add go_regexp \<lparr>BasePath = [], Routes = []\<rparr> ''/a/{x}'' 1))
            ''/a/{y:[0-9]+}'' 2)"

section \<open>Properties\<close>

text \<open>
  The recursion equations of the functions defined by a measure are unfolded by hand
  where a proof needs them.
\<close>

declare strip_prefixes.simps [simp del]
declare reSplitOR_pieces.simps [simp del]
declare reMatchVars_FindAll.simps [simp del]

subsection \<open>Condition flags\<close>

lemma and_single_bit: "(fl :: 'a::len word) AND 2 ^ n = (if bit fl n then 2 ^ n else 0)"
  by (rule bit_eqI) (auto simp: bit_simps)

lemma canonical_is_bit:
  assumes "(b, n) \<in> set canonical_methods"
  shows "\<exists>k. b = 2 ^ k"
proof -
  have pw: "(1::64 word) = 2 ^ 0" "(2::64 word) = 2 ^ 1" "(4::64 word) = 2 ^ 2"
    "(8::64 word) = 2 ^ 3" "(16::64 word) = 2 ^ 4" "(32::64 word) = 2 ^ 5"
    "(64::64 word) = 2 ^ 6" "(128::64 word) = 2 ^ 7" "(256::64 word) = 2 ^ 8"
    by simp_all
  from assms show ?thesis
    unfolding canonical_methods_def CondMethod_defs by (auto intro: pw)
qed

lemma canonical_and_cases:
  assumes "(b, n) \<in> set canonical_methods"
  shows "fl AND b = 0 \<or> fl AND b = b"
proof -
  from canonical_is_bit [OF assms] obtain k where "b = 2 ^ k" ..
  then show ?thesis by (simp add: and_single_bit)
qed

lemma ParseCondFlags_loop_tokens:
  "ParseCondFlags_loop f (''GET'' # toks) = ParseCondFlags_loop (f OR CondMethodGET) toks"
  "ParseCondFlags_loop f (''CONNECT'' # toks) = ParseCondFlags_loop (f OR CondMethodCONNECT) toks"
  "ParseCondFlags_loop f (''DELETE'' # toks) = ParseCondFlags_loop (f OR CondMethodDELETE) toks"
  "ParseCondFlags_loop f (''HEAD'' # toks) = ParseCondFlags_loop (f OR CondMethodHEAD) toks"
  "ParseCondFlags_loop f (''OPTIONS'' # toks) = ParseCondFlags_loop (f OR CondMethodOPTIONS) toks"
  "ParseCondFlags_loop f (''PATCH'' # toks) = ParseCondFlags_loop (f OR CondMethodPATCH) toks"
  "ParseCondFlags_loop f (''POST'' # toks) = ParseCondFlags_loop (f OR CondMethodPOST) toks"
  "ParseCondFlags_loop f (''PUT'' # toks) = ParseCondFlags_loop (f OR CondMethodPUT) toks"
  "ParseCondFlags_loop f (''TRACE'' # toks) = ParseCondFlags_loop (f OR CondMethodTRACE) toks"
  by simp_all

lemma ParseCondFlags_loop_canonical:
  assumes "(b, n) \<in> set canonical_methods"
  shows "ParseCondFlags_loop f (n # toks) = ParseCondFlags_loop (f OR b) toks"
  using assms
  by (auto simp add: canonical_methods_def ParseCondFlags_loop_tokens
      simp del: ParseCondFlags_loop.simps)


lemma ParseCondFlags_loop_set_methods:
  assumes "set ms \<subseteq> set canonical_methods"
  shows "ParseCondFlags_loop f (map snd (set_methods fl ms)) =
         Inr (fold (\<lambda>(b, n) a. a OR (fl AND b)) ms f)"
  using assms
proof (induction ms arbitrary: f)
  case Nil
  then show ?case by (simp add: set_methods_def)
next
  case (Cons m ms)
  obtain b n where m: "m = (b, n)" by (cases m)
  with Cons.prems have mem: "(b, n) \<in> set canonical_methods" by simp
  from Cons.prems have sub: "set ms \<subseteq> set canonical_methods" by simp
  show ?case
  proof (cases "fl AND b = 0")
    case True
    then show ?thesis
      using Cons.IH [OF sub, of f] by (simp add: m set_methods_def)
  next
    case False
    with canonical_and_cases [OF mem, of fl] have eq: "fl AND b = b" by simp
    show ?thesis
      using False Cons.IH [OF sub, of "f OR b"] ParseCondFlags_loop_canonical [OF mem]
      by (simp add: m set_methods_def eq)
  qed
qed

lemma or_of_defined_bits:
  assumes "(fl :: CondFlags) AND defined_method_bits = fl"
  shows "fold (\<lambda>(b, n) a. a OR (fl AND b)) canonical_methods 0 = fl"
proof -
  have "fold (\<lambda>(b, n) a. a OR (fl AND b)) canonical_methods 0 =
        (fl AND 1) OR (fl AND 2) OR (fl AND 4) OR (fl AND 8) OR (fl AND 16) OR (fl AND 32)
          OR (fl AND 64) OR (fl AND 128) OR (fl AND 256)"
    by (simp add: canonical_methods_def CondMethod_defs ac_simps)
  also have "\<dots> = fl AND (1 OR 2 OR 4 OR 8 OR 16 OR 32 OR 64 OR 128 OR 256)"
    by (simp only: bit.conj_disj_distrib)
  also have "\<dots> = fl AND 511" by simp
  finally show ?thesis using assms by (simp add: defined_method_bits_def)
qed

lemma sb_step: "(if c then sb @ x else sb) = sb @ (if c then x else [])"
  by simp

lemma set_methods_Cons:
  "concat (map f (set_methods fl ((b, n) # ms))) =
     (if fl AND b \<noteq> 0 then f (b, n) else []) @ concat (map f (set_methods fl ms))"
  by (simp add: set_methods_def)

lemma set_methods_Nil: "concat (map f (set_methods fl [])) = []"
  by (simp add: set_methods_def)

lemma String_as_concat:
  "CondFlags_String fl =
     (if fl = 0 then ''*''
      else let sb = concat (map (\<lambda>(b, n). CHR ''|'' # n) (set_methods fl canonical_methods))
           in if sb = [] then ''*'' else drop 1 sb)"
  apply (simp only: CondFlags_String_def sb_step)
  apply (simp only: Let_def canonical_methods_def set_methods_Cons set_methods_Nil
      append_assoc append_Nil append_Nil2 length_0_conv case_prod_conv)
  done

lemma bars_join:
  "concat (map (\<lambda>n. CHR ''|'' # n) ns) = (if ns = [] then [] else CHR ''|'' # join ''|'' ns)"
  by (induction "''|''" ns rule: join.induct) simp_all

lemma split_on_no_sep: "c \<notin> set n \<Longrightarrow> split_on c n = [n]"
  by (induction n) auto

lemma split_on_piece: "c \<notin> set n \<Longrightarrow> split_on c (n @ c # rest) = n # split_on c rest"
  by (induction n) auto

lemma split_on_join:
  assumes "ns \<noteq> []" and "\<forall>n \<in> set ns. c \<notin> set n"
  shows "split_on c (join [c] ns) = ns"
  using assms
  by (induction "[c]" ns rule: join.induct) (simp_all add: split_on_no_sep split_on_piece)

lemma canonical_names_no_bar: "(b, n) \<in> set canonical_methods \<Longrightarrow> CHR ''|'' \<notin> set n"
  unfolding canonical_methods_def by auto

lemma canonical_names_not_star: "(b, n) \<in> set canonical_methods \<Longrightarrow> n \<noteq> ''*''"
  unfolding canonical_methods_def by auto

lemma set_methods_nonempty:
  assumes "fl AND defined_method_bits = fl" and "fl \<noteq> 0"
  shows "set_methods fl canonical_methods \<noteq> []"
proof
  assume "set_methods fl canonical_methods = []"
  then have "ParseCondFlags_loop 0 (map snd (set_methods fl canonical_methods)) = Inr 0"
    by simp
  then have "fl = 0"
    using ParseCondFlags_loop_set_methods [of canonical_methods 0 fl]
      or_of_defined_bits [OF assms(1)] by simp
  with assms(2) show False by simp
qed

lemma bars_join_pairs:
  "concat (map (\<lambda>(b, n). CHR ''|'' # n) ms) =
     (if ms = [] then [] else CHR ''|'' # join ''|'' (map snd ms))"
proof -
  have "map (\<lambda>(b, n). CHR ''|'' # n) ms = map (\<lambda>n. CHR ''|'' # n) (map snd ms)"
    by (simp add: case_prod_unfold comp_def)
  then show ?thesis by (simp only: bars_join) simp
qed

lemma String_join:
  assumes "fl AND defined_method_bits = fl" and "fl \<noteq> 0"
  shows "CondFlags_String fl = join ''|'' (map snd (set_methods fl canonical_methods))"
  using set_methods_nonempty [OF assms] assms(2)
  by (simp add: String_as_concat bars_join_pairs Let_def)

lemma ParseCondFlags_roundtrip:
  assumes "fl AND defined_method_bits = fl"
  shows "ParseCondFlags (split_on CHR ''|'' (CondFlags_String fl)) = Inr fl"
proof (cases "fl = 0")
  case True
  then show ?thesis by (simp add: CondFlags_String_def ParseCondFlags_def)
next
  case False
  let ?ns = "map snd (set_methods fl canonical_methods)"
  have ne: "?ns \<noteq> []" using set_methods_nonempty [OF assms False] by simp
  have nobar: "\<forall>n \<in> set ?ns. CHR ''|'' \<notin> set n"
    by (auto simp: set_methods_def dest: canonical_names_no_bar)
  have nostar: "\<forall>n \<in> set ?ns. n \<noteq> ''*''"
    by (auto simp: set_methods_def dest: canonical_names_not_star)
  have split: "split_on CHR ''|'' (CondFlags_String fl) = ?ns"
    using split_on_join [OF ne nobar] String_join [OF assms False] by simp
  have "\<not> (length ?ns = 1 \<and> ?ns ! 0 = ''*'')"
  proof
    assume a: "length ?ns = 1 \<and> ?ns ! 0 = ''*''"
    then have "?ns ! 0 \<in> set ?ns" by (intro nth_mem) simp
    with a nostar show False by auto
  qed
  then have "ParseCondFlags ?ns = ParseCondFlags_loop 0 ?ns"
    unfolding ParseCondFlags_def by (rule if_not_P)
  also have "\<dots> = Inr fl"
    using ParseCondFlags_loop_set_methods [of canonical_methods 0 fl]
      or_of_defined_bits [OF assms] by simp
  finally show ?thesis using split by simp
qed


lemma split_on_nonempty: "split_on c s \<noteq> []"
  by (induction s) (auto split: list.splits)

lemma reSplitOR_at_no_space:
  assumes "\<forall>x \<in> set (c # cs). \<not> is_space x"
  shows "reSplitOR_at (c # cs) = (if c = CHR ''|'' then Some 1 else None)"
proof -
  have "takeWhile is_space cs = []"
    using assms by (cases cs) auto
  with assms show ?thesis by (auto simp: reSplitOR_at_def)
qed

lemma reSplitOR_pieces_Nil: "reSplitOR_pieces cur [] = [cur]"
  by (subst reSplitOR_pieces.simps) simp

lemma reSplitOR_pieces_Cons:
  "reSplitOR_pieces cur (c # cs) =
     (case reSplitOR_at (c # cs) of
        Some n \<Rightarrow> cur # reSplitOR_pieces [] (drop n (c # cs))
      | None \<Rightarrow> reSplitOR_pieces (cur @ [c]) cs)"
  by (subst reSplitOR_pieces.simps) simp

lemma reSplitOR_pieces_no_space:
  assumes "\<forall>x \<in> set s. \<not> is_space x"
  shows "reSplitOR_pieces cur s =
         (case split_on CHR ''|'' s of p # ps \<Rightarrow> (cur @ p) # ps | [] \<Rightarrow> [])"
  using assms
proof (induction s arbitrary: cur)
  case Nil
  then show ?case by (simp add: reSplitOR_pieces_Nil)
next
  case (Cons c cs)
  from Cons.prems have cs: "\<forall>x \<in> set cs. \<not> is_space x" by simp
  show ?case
  proof (cases "c = CHR ''|''")
    case True
    have "reSplitOR_pieces cur (c # cs) = cur # reSplitOR_pieces [] cs"
      using reSplitOR_at_no_space [OF Cons.prems] True by (simp add: reSplitOR_pieces_Cons)
    also have "reSplitOR_pieces [] cs = split_on CHR ''|'' cs"
      using Cons.IH [OF cs, of "[]"] split_on_nonempty [of "CHR ''|''" cs]
      by (simp split: list.splits)
    finally show ?thesis using True by simp
  next
    case False
    have "reSplitOR_pieces cur (c # cs) = reSplitOR_pieces (cur @ [c]) cs"
      using reSplitOR_at_no_space [OF Cons.prems] False by (simp add: reSplitOR_pieces_Cons)
    then show ?thesis
      using Cons.IH [OF cs, of "cur @ [c]"] False split_on_nonempty [of "CHR ''|''" cs]
      by (simp split: list.splits)
  qed
qed

lemma reSplitOR_Split_no_space:
  assumes "\<forall>x \<in> set s. \<not> is_space x"
  shows "reSplitOR_Split s = split_on CHR ''|'' s"
proof (cases "split_on CHR ''|'' s")
  case Nil
  then show ?thesis using split_on_nonempty [of "CHR ''|''" s] by simp
next
  case (Cons p ps)
  then show ?thesis
    using reSplitOR_pieces_no_space [OF assms, of "[]"] by (simp add: reSplitOR_Split_def)
qed

lemma set_join: "set (join sep ns) \<subseteq> set sep \<union> \<Union> (set ` set ns)"
  by (induction sep ns rule: join.induct) auto

lemma canonical_names_no_space:
  "(b, n) \<in> set canonical_methods \<Longrightarrow> x \<in> set n \<Longrightarrow> \<not> is_space x"
  unfolding canonical_methods_def is_space_def by auto

lemma String_no_space:
  assumes "fl AND defined_method_bits = fl"
  shows "\<forall>x \<in> set (CondFlags_String fl). \<not> is_space x"
proof (cases "fl = 0")
  case True
  then show ?thesis by (simp add: CondFlags_String_def is_space_def)
next
  case False
  show ?thesis
  proof
    fix x assume "x \<in> set (CondFlags_String fl)"
    then have "x \<in> set (join ''|'' (map snd (set_methods fl canonical_methods)))"
      using String_join [OF assms False] by simp
    then have "x \<in> set ''|'' \<union> \<Union> (set ` set (map snd (set_methods fl canonical_methods)))"
      using set_join [of "''|''" "map snd (set_methods fl canonical_methods)"] by blast
    then consider "x = CHR ''|''"
      | b n where "(b, n) \<in> set canonical_methods" and "x \<in> set n"
      by (auto simp: set_methods_def)
    then show "\<not> is_space x"
    proof cases
      case 1
      then show ?thesis by (simp add: is_space_def)
    next
      case 2
      then show ?thesis by (rule canonical_names_no_space)
    qed
  qed
qed

text \<open>
  Claim C8. For every condition bitset \<open>fl\<close> in which only defined method bits are set:
  rendering it and parsing the rendered tokens again gives \<open>fl\<close> back, the tokens cut
  at each bar (\<open>split_on\<close>) or by the compiler's own \<open>reSplitOR\<close>; the bitset 0 renders
  as a star; a bitset other than 0 renders as the names of its set methods, in the
  canonical order, joined by bars; the token list of one star and the empty token list
  both parse to 0; and a route whose conditions are 0 is never skipped by the scan's test
  of the conditions, whatever the request's conditions.
\<close>

theorem condflags_render_parse_roundtrip:
  "fl AND defined_method_bits = fl \<Longrightarrow>
     ParseCondFlags (split_on CHR ''|'' (CondFlags_String fl)) = Inr fl \<and>
     ParseCondFlags (reSplitOR_Split (CondFlags_String fl)) = Inr fl \<and>
     CondFlags_String 0 = ''*'' \<and>
     (fl \<noteq> 0 \<longrightarrow>
        CondFlags_String fl = join ''|'' (map snd (set_methods fl canonical_methods))) \<and>
     ParseCondFlags [''*''] = Inr 0 \<and> ParseCondFlags [] = Inr 0 \<and>
     (\<forall>route conditions. Conditions route = 0 \<longrightarrow> \<not> conditions_skip route conditions)"
proof -
  assume d: "fl AND defined_method_bits = fl"
  have 1: "ParseCondFlags (split_on CHR ''|'' (CondFlags_String fl)) = Inr fl"
    by (rule ParseCondFlags_roundtrip [OF d])
  have 2: "ParseCondFlags (reSplitOR_Split (CondFlags_String fl)) = Inr fl"
    using 1 reSplitOR_Split_no_space [OF String_no_space [OF d]] by simp
  have 3: "CondFlags_String 0 = ''*''" by (simp add: CondFlags_String_def)
  have 4: "fl \<noteq> 0 \<longrightarrow>
        CondFlags_String fl = join ''|'' (map snd (set_methods fl canonical_methods))"
    using String_join [OF d] by simp
  have 5: "ParseCondFlags [''*''] = Inr 0" "ParseCondFlags [] = Inr 0"
    by (simp_all add: ParseCondFlags_def)
  have 6: "\<forall>route conditions. Conditions route = 0 \<longrightarrow> \<not> conditions_skip route conditions"
    by (simp add: conditions_skip_def)
  from 1 2 3 4 5 6 show ?thesis by blast
qed

text \<open>The theorem at \<open>fl = 65\<close>, GET and POST.\<close>

theorem condflags_render_parse_roundtrip_witness:
  "(65 :: CondFlags) AND defined_method_bits = 65 \<and>
   CondFlags_String 65 = ''GET|POST'' \<and>
   set_methods 65 canonical_methods = [(CondMethodGET, ''GET''), (CondMethodPOST, ''POST'')] \<and>
   ParseCondFlags (split_on CHR ''|'' (CondFlags_String 65)) = Inr 65 \<and>
   ParseCondFlags (reSplitOR_Split (CondFlags_String 65)) = Inr 65"
proof -
  have h: "(65 :: CondFlags) AND defined_method_bits = 65"
    by (simp add: defined_method_bits_def)
  have s: "CondFlags_String 65 = ''GET|POST''"
    by (simp add: CondFlags_String_def CondMethod_defs)
  have m: "set_methods 65 canonical_methods = [(CondMethodGET, ''GET''), (CondMethodPOST, ''POST'')]"
    by (simp add: set_methods_def canonical_methods_def CondMethod_defs)
  note r = condflags_render_parse_roundtrip [OF h]
  from r have a: "ParseCondFlags (split_on CHR ''|'' (CondFlags_String 65)) = Inr 65"
    by (rule conjunct1)
  from r have b: "ParseCondFlags (reSplitOR_Split (CondFlags_String 65)) = Inr 65"
    by (rule conjunct1 [OF conjunct2])
  from h s m a b show ?thesis by (intro conjI)
qed

subsection \<open>The scan\<close>

lemma Match_scan_None:
  "(\<forall>route \<in> set routes. \<not> route_matches lib route conds path) \<Longrightarrow>
   Match_scan lib routes i conds path = None"
  by (induction routes arbitrary: i) (auto simp: route_matches_def)

lemma Match_scan_first:
  assumes "k < length routes"
    and "route_matches lib (routes ! k) conds path"
    and "\<forall>j < k. \<not> route_matches lib (routes ! j) conds path"
  shows "Match_scan lib routes i conds path =
         Some \<lparr>RoutePtr = i + k, Path = path,
               values_m = the (route_try lib (routes ! k) path)\<rparr>"
  using assms
proof (induction routes arbitrary: i k)
  case Nil
  then show ?case by simp
next
  case (Cons route routes)
  show ?case
  proof (cases k)
    case 0
    with Cons.prems(2) show ?thesis
      by (auto simp: route_matches_def)
  next
    case (Suc k')
    from Cons.prems(3) Suc have no: "\<not> route_matches lib route conds path" by auto
    from Cons.prems Suc have
      "k' < length routes" "route_matches lib (routes ! k') conds path"
      "\<forall>j < k'. \<not> route_matches lib (routes ! j) conds path"
      by auto
    from Cons.IH [OF this, of "Suc i"] no Suc show ?thesis
      by (auto simp: route_matches_def)
  qed
qed

lemma Match_scan_Some:
  assumes "Match_scan lib routes i conds path = Some m"
  shows "i \<le> RoutePtr m \<and> RoutePtr m - i < length routes \<and> Path m = path \<and>
         route_matches lib (routes ! (RoutePtr m - i)) conds path \<and>
         (\<forall>j < RoutePtr m - i. \<not> route_matches lib (routes ! j) conds path) \<and>
         route_try lib (routes ! (RoutePtr m - i)) path = Some (values_m m)"
  using assms
proof (induction routes arbitrary: i)
  case Nil
  then show ?case by simp
next
  case (Cons route routes)
  show ?case
  proof (cases "route_matches lib route conds path")
    case True
    with Cons.prems show ?thesis
      by (auto simp: route_matches_def)
  next
    case False
    with Cons.prems have "Match_scan lib routes (Suc i) conds path = Some m"
      by (auto simp: route_matches_def split: option.splits if_splits)
    from Cons.IH [OF this] have ih:
      "Suc i \<le> RoutePtr m" "RoutePtr m - Suc i < length routes" "Path m = path"
      "route_matches lib (routes ! (RoutePtr m - Suc i)) conds path"
      "\<forall>j < RoutePtr m - Suc i. \<not> route_matches lib (routes ! j) conds path"
      "route_try lib (routes ! (RoutePtr m - Suc i)) path = Some (values_m m)"
      by auto
    from ih(1) obtain d where d: "RoutePtr m - i = Suc d" "RoutePtr m - Suc i = d"
      by (metis Suc_diff_Suc Suc_le_lessD diff_Suc_eq_diff_pred)
    have "\<forall>j < Suc d. \<not> route_matches lib ((route # routes) ! j) conds path"
    proof (intro allI impI)
      fix j assume "j < Suc d"
      then show "\<not> route_matches lib ((route # routes) ! j) conds path"
        using False ih(5) d by (cases j) auto
    qed
    with ih d show ?thesis by auto
  qed
qed


lemma Router_Match_in_scope:
  assumes "BasePath r = [] \<or> HasPrefix path (BasePath r)"
  shows "Router_Match lib r conds path =
         Inr (Match_scan lib (Routes r) 0 conds (remaining_path r path))"
  using assms by (auto simp: Router_Match_def remaining_path_def)

lemma Router_Match_outside:
  assumes "BasePath r \<noteq> []" and "\<not> HasPrefix path (BasePath r)"
  shows "Router_Match lib r conds path = Inl (OutsideBasePath path (BasePath r))"
  using assms by (simp add: Router_Match_def)

text \<open>
  Claim C3. For every router, request conditions and path inside the base path: whenever a
  registered route \<open>k\<close> matches the request, \<open>Match\<close> returns a route that matches, that
  was registered no later than \<open>k\<close>, and before which no registered route matches. So of
  two or more routes that match, it returns the one registered first, in whatever order
  the routes were registered (\<open>Add\<close> puts each new route at the end of the table).
\<close>

theorem first_registered_route_wins:
  assumes "BasePath r = [] \<or> HasPrefix path (BasePath r)"
    and "k < length (Routes r)"
    and "route_matches lib (Routes r ! k) conds (remaining_path r path)"
  shows "\<exists>m. Router_Match lib r conds path = Inr (Some m) \<and> RoutePtr m \<le> k \<and>
           route_matches lib (Routes r ! RoutePtr m) conds (remaining_path r path) \<and>
           (\<forall>j < RoutePtr m. \<not> route_matches lib (Routes r ! j) conds (remaining_path r path))"
proof -
  let ?P = "\<lambda>j. route_matches lib (Routes r ! j) conds (remaining_path r path)"
  define f where "f = (LEAST j. ?P j)"
  have Pf: "?P f" unfolding f_def using assms(3) by (rule LeastI)
  have fk: "f \<le> k" unfolding f_def using assms(3) by (rule Least_le)
  have least: "\<forall>j < f. \<not> ?P j" unfolding f_def using not_less_Least by blast
  from fk assms(2) have "f < length (Routes r)" by simp
  from Match_scan_first [OF this Pf least, of 0]
  have "Router_Match lib r conds path =
        Inr (Some \<lparr>RoutePtr = f, Path = remaining_path r path,
                   values_m = the (route_try lib (Routes r ! f) (remaining_path r path))\<rparr>)"
    by (simp add: Router_Match_in_scope [OF assms(1)])
  with Pf fk least show ?thesis by simp
qed

text \<open>
  Scenario C: both rules match \<open>/a/7\<close>; the first one is returned, with \<open>x = 7\<close>.
\<close>

theorem first_registered_route_wins_witness:
  "(BasePath scenario_C = [] \<or> HasPrefix ''/a/7'' (BasePath scenario_C)) \<and>
   1 < length (Routes scenario_C) \<and>
   route_matches go_regexp (Routes scenario_C ! 0) 0 (remaining_path scenario_C ''/a/7'') \<and>
   route_matches go_regexp (Routes scenario_C ! 1) 0 (remaining_path scenario_C ''/a/7'') \<and>
   (\<exists>m. Router_Match go_regexp scenario_C 0 ''/a/7'' = Inr (Some m) \<and> RoutePtr m = 0) \<and>
   Router_Match go_regexp scenario_C 0 ''/a/7'' =
     Inr (Some \<lparr>RoutePtr = 0, Path = ''/a/7'', values_m = [''7'']\<rparr>)"
proof -
  have h1: "BasePath scenario_C = [] \<or> HasPrefix ''/a/7'' (BasePath scenario_C)"
    by code_simp
  have h2: "1 < length (Routes scenario_C)"
    by code_simp
  have h3: "route_matches go_regexp (Routes scenario_C ! 1) 0 (remaining_path scenario_C ''/a/7'')"
    by code_simp
  have h0: "route_matches go_regexp (Routes scenario_C ! 0) 0 (remaining_path scenario_C ''/a/7'')"
    by code_simp
  from first_registered_route_wins [OF h1 h2 h3] obtain m where
    m: "Router_Match go_regexp scenario_C 0 ''/a/7'' = Inr (Some m)"
      "\<forall>j < RoutePtr m.
         \<not> route_matches go_regexp (Routes scenario_C ! j) 0 (remaining_path scenario_C ''/a/7'')"
    by blast
  from m(2) h0 have "RoutePtr m = 0" by (cases "RoutePtr m") auto
  with m(1) have e: "\<exists>m. Router_Match go_regexp scenario_C 0 ''/a/7'' = Inr (Some m) \<and> RoutePtr m = 0"
    by blast
  have v: "Router_Match go_regexp scenario_C 0 ''/a/7'' =
     Inr (Some \<lparr>RoutePtr = 0, Path = ''/a/7'', values_m = [''7'']\<rparr>)"
    by code_simp
  from h1 h2 h0 h3 e v show ?thesis by (intro conjI)
qed

text \<open>
  Claim C5. For every router with a base path that is not empty: a path that does not
  start with the base path gives the error \<open>OutsideBasePath\<close>; a path inside the base
  path that no registered route matches gives \<open>nil, nil\<close>, not an error; and \<open>Match\<close>
  returns an error exactly when the path is outside the base path, so the two outcomes
  are never the same.
\<close>

theorem outside_base_path_is_error_no_match_is_not:
  assumes "BasePath r \<noteq> []"
  shows "(\<not> HasPrefix path (BasePath r) \<longrightarrow>
            Router_Match lib r conds path = Inl (OutsideBasePath path (BasePath r))) \<and>
         (HasPrefix path (BasePath r) \<and>
            (\<forall>route \<in> set (Routes r).
               \<not> route_matches lib route conds (remaining_path r path)) \<longrightarrow>
            Router_Match lib r conds path = Inr None) \<and>
         ((\<exists>e. Router_Match lib r conds path = Inl e) \<longleftrightarrow> \<not> HasPrefix path (BasePath r))"
proof (intro conjI impI)
  assume "\<not> HasPrefix path (BasePath r)"
  with assms show "Router_Match lib r conds path = Inl (OutsideBasePath path (BasePath r))"
    by (rule Router_Match_outside)
next
  assume a: "HasPrefix path (BasePath r) \<and>
    (\<forall>route \<in> set (Routes r). \<not> route_matches lib route conds (remaining_path r path))"
  then have "Match_scan lib (Routes r) 0 conds (remaining_path r path) = None"
    by (intro Match_scan_None) simp
  with a show "Router_Match lib r conds path = Inr None"
    by (simp add: Router_Match_in_scope)
next
  show "(\<exists>e. Router_Match lib r conds path = Inl e) \<longleftrightarrow> \<not> HasPrefix path (BasePath r)"
    using assms by (auto simp: Router_Match_def)
qed


text \<open>
  Scenario B: under \<open>/api\<close>, the rule \<open>GET /widgets/\<close>. A path outside \<open>/api\<close> is an
  error, POST on a path under it is no match, GET on the same path is a match.
\<close>

theorem outside_base_path_is_error_no_match_is_not_witness:
  "BasePath scenario_B \<noteq> [] \<and>
   \<not> HasPrefix ''/other/widgets/'' (BasePath scenario_B) \<and>
   Router_Match go_regexp scenario_B CondMethodGET ''/other/widgets/'' =
     Inl (OutsideBasePath ''/other/widgets/'' ''/api'') \<and>
   HasPrefix ''/api/widgets/anything'' (BasePath scenario_B) \<and>
   length (Routes scenario_B) = 1 \<and>
   \<not> route_matches go_regexp (Routes scenario_B ! 0) CondMethodPOST
       (remaining_path scenario_B ''/api/widgets/anything'') \<and>
   Router_Match go_regexp scenario_B CondMethodPOST ''/api/widgets/anything'' = Inr None \<and>
   Router_Match go_regexp scenario_B CondMethodGET ''/api/widgets/anything'' =
     Inr (Some \<lparr>RoutePtr = 0, Path = ''/widgets/anything'', values_m = []\<rparr>)"
proof -
  have b: "BasePath scenario_B \<noteq> []" by code_simp
  have bp: "BasePath scenario_B = ''/api''" by code_simp
  have o: "\<not> HasPrefix ''/other/widgets/'' (BasePath scenario_B)" by code_simp
  have i: "HasPrefix ''/api/widgets/anything'' (BasePath scenario_B)" by code_simp
  have l: "length (Routes scenario_B) = 1" by code_simp
  have n0: "\<not> route_matches go_regexp (Routes scenario_B ! 0) CondMethodPOST
       (remaining_path scenario_B ''/api/widgets/anything'')"
    by code_simp
  have n: "\<forall>route \<in> set (Routes scenario_B).
      \<not> route_matches go_regexp route CondMethodPOST
          (remaining_path scenario_B ''/api/widgets/anything'')"
  proof
    fix route assume "route \<in> set (Routes scenario_B)"
    then obtain j where "j < length (Routes scenario_B)" "route = Routes scenario_B ! j"
      by (auto simp: in_set_conv_nth)
    with l n0 show "\<not> route_matches go_regexp route CondMethodPOST
          (remaining_path scenario_B ''/api/widgets/anything'')" by simp
  qed
  note t1 = outside_base_path_is_error_no_match_is_not
    [OF b, of "''/other/widgets/''" go_regexp CondMethodGET]
  note t2 = outside_base_path_is_error_no_match_is_not
    [OF b, of "''/api/widgets/anything''" go_regexp CondMethodPOST]
  from t1 o bp have r1: "Router_Match go_regexp scenario_B CondMethodGET ''/other/widgets/'' =
     Inl (OutsideBasePath ''/other/widgets/'' ''/api'')" by simp
  from t2 i n have r2:
    "Router_Match go_regexp scenario_B CondMethodPOST ''/api/widgets/anything'' = Inr None"
    by blast
  have r3: "Router_Match go_regexp scenario_B CondMethodGET ''/api/widgets/anything'' =
     Inr (Some \<lparr>RoutePtr = 0, Path = ''/widgets/anything'', values_m = []\<rparr>)"
    by code_simp
  from b o r1 i l n0 r2 r3 show ?thesis by (intro conjI)
qed

subsection \<open>Compiling a rule\<close>

lemma IndexByte_Some: "IndexByte s c = Some i \<Longrightarrow> i < length s \<and> s ! i = c"
  by (induction s arbitrary: i) (auto split: if_splits)

lemma IndexByte_None: "IndexByte s c = None \<longleftrightarrow> c \<notin> set s"
  by (induction s) auto

lemma if_chain: "P a \<Longrightarrow> P b \<Longrightarrow> P (if c then a else b)"
  by simp

lemma ParseCondFlags_loop_cases:
  assumes step: "\<And>f'. Q (ParseCondFlags_loop f' toks)"
    and base: "Q (Inl (InvalidCondition tok))"
  shows "Q (ParseCondFlags_loop f (tok # toks))"
  apply (subst ParseCondFlags_loop.simps)
  apply (rule if_chain [where P = Q], rule step)
  apply (rule if_chain [where P = Q], rule step)
  apply (rule if_chain [where P = Q], rule step)
  apply (rule if_chain [where P = Q], rule step)
  apply (rule if_chain [where P = Q], rule step)
  apply (rule if_chain [where P = Q], rule step)
  apply (rule if_chain [where P = Q], rule step)
  apply (rule if_chain [where P = Q], rule step)
  apply (rule if_chain [where P = Q], rule step)
  apply (rule base)
  done

lemma ParseCondFlags_loop_error:
  "ParseCondFlags_loop f toks = Inl e \<longrightarrow> (\<exists>tok. e = InvalidCondition tok)"
proof (induction toks arbitrary: f)
  case Nil
  show ?case by simp
next
  case (Cons tok toks)
  show ?case
    by (rule ParseCondFlags_loop_cases
          [where Q = "\<lambda>x. x = Inl e \<longrightarrow> (\<exists>tok. e = InvalidCondition tok)"])
       (use Cons.IH in auto)
qed

lemma ParseCondFlags_error: "ParseCondFlags toks = Inl e \<Longrightarrow> \<exists>tok. e = InvalidCondition tok"
  using ParseCondFlags_loop_error [of 0 toks e]
  by (auto simp: ParseCondFlags_def split: if_splits)

lemma Parse_vars_error:
  "Parse_vars pp k locs r rp ps = Inl (r', e) \<Longrightarrow> \<exists>name. e = DuplicateVariable name pp"
  by (induction pp k locs r rp ps rule: Parse_vars.induct)
     (auto simp: Let_def split: if_splits)

lemma Parse_assemble_error:
  fixes r :: "('re, 'h) Route"
  assumes "snd (Parse_assemble lib r pp locs) = Some e"
  shows "(\<exists>name. e = DuplicateVariable name pp) \<or> (\<exists>pat. e = InvalidPatternSyntax pat)"
  using assms
  by (auto simp: Parse_assemble_def Let_def dest: Parse_vars_error
      split: sum.splits prod.splits option.splits)

lemma Parse_path_error:
  fixes r :: "('re, 'h) Route"
  assumes "snd (Parse_path lib r pp) = Some e"
  shows "(\<exists>name p. e = DuplicateVariable name p) \<or> (\<exists>pat. e = InvalidPatternSyntax pat)"
proof -
  from assms obtain r' :: "('re, 'h) Route" and pp' locs
    where "snd (Parse_assemble lib r' pp' locs) = Some e"
    by (auto simp: Parse_path_def Let_def split: if_splits)
  from Parse_assemble_error [OF this] show ?thesis by blast
qed

lemma strip_prefixes_drop: "\<exists>n. strip_prefixes ws s = drop n s"
proof (induction ws s rule: strip_prefixes.induct)
  case (1 ws s)
  show ?case
  proof (cases "find (\<lambda>w. w \<noteq> [] \<and> prefix w s) ws")
    case None
    then have "strip_prefixes ws s = drop 0 s"
      by (subst strip_prefixes.simps) simp
    then show ?thesis by blast
  next
    case (Some w)
    from "1.IH" [OF Some] obtain n where "strip_prefixes ws (drop (length w) s) = drop n (drop (length w) s)"
      by blast
    with Some have "strip_prefixes ws s = drop (n + length w) s"
      by (subst strip_prefixes.simps) (simp add: add.commute)
    then show ?thesis by blast
  qed
qed

lemma set_TrimSpace: "set (TrimSpace s) \<subseteq> set s"
proof -
  obtain m where m: "strip_prefixes space_runes s = drop m s"
    using strip_prefixes_drop by blast
  obtain n where n: "strip_prefixes (map rev space_runes) (rev (drop m s)) = drop n (rev (drop m s))"
    using strip_prefixes_drop by blast
  have "set (TrimSpace s) = set (drop n (rev (drop m s)))"
    by (simp add: TrimSpace_def m n)
  also have "\<dots> \<subseteq> set (rev (drop m s))" by (rule set_drop_subset)
  also have "\<dots> \<subseteq> set s" using set_drop_subset [of m s] by simp
  finally show ?thesis .
qed

lemma Route_Parse_no_slash:
  fixes r :: "('re, 'h) Route"
  assumes "CHR ''/'' \<notin> set ruleText"
  shows "Route_Parse lib r ruleText = (r, Some (MissingPathSeparator (TrimSpace ruleText)))"
proof -
  from assms set_TrimSpace [of ruleText] have "CHR ''/'' \<notin> set (TrimSpace ruleText)"
    by blast
  then have "IndexByte (TrimSpace ruleText) CHR ''/'' = None"
    by (simp add: IndexByte_None)
  then show ?thesis by (simp add: Route_Parse_def)
qed

lemma Route_Parse_never_EmptyPattern:
  fixes r :: "('re, 'h) Route"
  shows "snd (Route_Parse lib r ruleText) \<noteq> Some EmptyPattern"
proof (cases "IndexByte (TrimSpace ruleText) CHR ''/''")
  case None
  then show ?thesis by (simp add: Route_Parse_def)
next
  case (Some i)
  let ?pp = "TrimSpace ruleText"
  from IndexByte_Some [OF Some] have i: "i < length ?pp" by simp
  then have ne: "drop i ?pp \<noteq> []" "?pp \<noteq> []" by auto
  show ?thesis
  proof
    assume "snd (Route_Parse lib r ruleText) = Some EmptyPattern"
    with Some ne i consider
      toks where "ParseCondFlags toks = Inl EmptyPattern"
      | r' :: "('re, 'h) Route" and pp'
        where "snd (Parse_path lib r' pp') = Some EmptyPattern"
      by (auto simp: Route_Parse_def Let_def split: sum.splits if_splits)
    then show False
    proof cases
      case 1
      then show ?thesis by (auto dest: ParseCondFlags_error)
    next
      case 2
      then show ?thesis by (auto dest: Parse_path_error)
    qed
  qed
qed

text \<open>
  Claim C7 does not hold of the code. A rule text without a slash gives the error for a
  missing slash, as the claim says. But on the empty rule text \<open>Route.Parse\<close> returns
  that same error, not the one for an empty pattern, and no rule text at all gives the
  error for an empty pattern: the test \<open>len(pathPattern) == 0\<close> comes after the return
  for a text without a slash, and what passes that return is never empty.
\<close>

theorem empty_rule_text_reports_missing_separator:
  fixes r :: "('re, 'h) Route"
  shows "(CHR ''/'' \<notin> set ruleText \<longrightarrow>
            Route_Parse lib r ruleText =
              (r, Some (MissingPathSeparator (TrimSpace ruleText)))) \<and>
         Route_Parse lib r '''' = (r, Some (MissingPathSeparator '''')) \<and>
         snd (Route_Parse lib r anyText) \<noteq> Some EmptyPattern"
proof -
  have "TrimSpace '''' = ''''" by code_simp
  then have "Route_Parse lib r '''' = (r, Some (MissingPathSeparator ''''))"
    by (simp add: Route_Parse_def)
  then show ?thesis
    using Route_Parse_never_EmptyPattern Route_Parse_no_slash by blast
qed

text \<open>A rule text with a condition and no slash.\<close>

theorem empty_rule_text_reports_missing_separator_witness:
  "CHR ''/'' \<notin> set ''GET widgets '' \<and>
   Route_Parse go_regexp (Route_zero :: (rx \<times> nat, nat) Route) ''GET widgets '' =
     (Route_zero, Some (MissingPathSeparator ''GET widgets''))"
proof -
  have h: "CHR ''/'' \<notin> set ''GET widgets ''" by simp
  have t: "TrimSpace ''GET widgets '' = ''GET widgets''" by code_simp
  from empty_rule_text_reports_missing_separator
    [of "''GET widgets ''" go_regexp "Route_zero :: (rx \<times> nat, nat) Route"] h t
  have "Route_Parse go_regexp (Route_zero :: (rx \<times> nat, nat) Route) ''GET widgets '' =
     (Route_zero, Some (MissingPathSeparator ''GET widgets''))"
    by simp
  with h show ?thesis by (intro conjI)
qed

subsection \<open>Adding a route\<close>

lemma Router_Add_failure:
  fixes r :: "('re, 'h) Router"
  assumes "snd (Route_Parse lib (Route_zero :: ('re, 'h) Route) ruleText) = Some e"
  shows "Router_Add lib r ruleText handler =
         (r\<lparr>BasePath := Add_BasePath (BasePath r)\<rparr>, Inl e)"
  using assms
  by (cases "Route_Parse lib (Route_zero :: ('re, 'h) Route) ruleText")
     (simp add: Router_Add_def Let_def)

lemma Router_Add_success:
  fixes r :: "('re, 'h) Router"
  assumes "snd (Route_Parse lib (Route_zero :: ('re, 'h) Route) ruleText) = None"
  shows "Router_Add lib r ruleText handler =
         (r\<lparr>BasePath := Add_BasePath (BasePath r),
            Routes := Routes r @
              [(fst (Route_Parse lib (Route_zero :: ('re, 'h) Route) ruleText))
                 \<lparr>Handler := Some handler\<rparr>]\<rparr>,
          Inr (length (Routes r)))"
  using assms
  by (cases "Route_Parse lib (Route_zero :: ('re, 'h) Route) ruleText")
     (simp add: Router_Add_def Let_def)

lemma Router_Add_BasePath:
  fixes r :: "('re, 'h) Router"
  shows "BasePath (fst (Router_Add lib r ruleText handler)) = Add_BasePath (BasePath r)"
  by (cases "snd (Route_Parse lib (Route_zero :: ('re, 'h) Route) ruleText)")
     (simp_all add: Router_Add_failure Router_Add_success)

text \<open>
  Claim C2, as amended. For every table and every rule text whose compilation fails,
  \<open>Add\<close> returns the compilation error and no route, and the sequence of routes is
  exactly what it was: no partial insert survives. The base path is not left as it was:
  it is replaced by the result of \<open>Add\<close>'s checks on it, which run before the rule is
  compiled. So the table is unchanged exactly when these checks leave the base path as
  it is.
\<close>

theorem add_failure_keeps_routes:
  fixes r :: "('re, 'h) Router"
  assumes "snd (Route_Parse lib (Route_zero :: ('re, 'h) Route) ruleText) = Some e"
  shows "Router_Add lib r ruleText handler =
           (r\<lparr>BasePath := Add_BasePath (BasePath r)\<rparr>, Inl e) \<and>
         Routes (fst (Router_Add lib r ruleText handler)) = Routes r \<and>
         (Add_BasePath (BasePath r) = BasePath r \<longrightarrow>
            fst (Router_Add lib r ruleText handler) = r)"
  using Router_Add_failure [OF assms] by simp

text \<open>
  Claim C2 as stated fails: a table with the base path \<open>/\<close> and no route, and the rule
  text that is empty. \<open>Add\<close> returns an error, and the base path is now empty.
\<close>

theorem add_failure_changes_base_path:
  "Router_Add go_regexp \<lparr>BasePath = ''/'', Routes = []\<rparr> '''' (1 :: nat) =
     (\<lparr>BasePath = [], Routes = []\<rparr>, Inl (MissingPathSeparator [])) \<and>
   fst (Router_Add go_regexp \<lparr>BasePath = ''/'', Routes = []\<rparr> '''' (1 :: nat)) \<noteq>
     \<lparr>BasePath = ''/'', Routes = []\<rparr>"
  by code_simp

text \<open>
  The table of scenario B and a rule text without a slash: the error is returned and the
  table is the same.
\<close>

theorem add_failure_keeps_routes_witness:
  "snd (Route_Parse go_regexp (Route_zero :: (rx \<times> nat, nat) Route) ''GET widgets'') =
     Some (MissingPathSeparator ''GET widgets'') \<and>
   Add_BasePath (BasePath scenario_B) = BasePath scenario_B \<and>
   Router_Add go_regexp scenario_B ''GET widgets'' 2 =
     (scenario_B, Inl (MissingPathSeparator ''GET widgets''))"
proof -
  have h: "snd (Route_Parse go_regexp (Route_zero :: (rx \<times> nat, nat) Route) ''GET widgets'') =
     Some (MissingPathSeparator ''GET widgets'')"
    by code_simp
  have b: "Add_BasePath (BasePath scenario_B) = BasePath scenario_B"
    by code_simp
  from add_failure_keeps_routes [OF h, of scenario_B 2] b
  have "Router_Add go_regexp scenario_B ''GET widgets'' 2 =
     (scenario_B, Inl (MissingPathSeparator ''GET widgets''))"
    by (metis prod.collapse fst_conv snd_conv)
  with h b show ?thesis by (intro conjI)
qed

lemma trimSlashes_eq:
  "trimSlashes s (length s) = rev (dropWhile (\<lambda>c. c = CHR ''/'') (rev s))"
proof (induction s rule: rev_induct)
  case Nil
  show ?case by simp
next
  case (snoc x xs)
  then show ?case by simp
qed

lemma Add_BasePath_absolute:
  assumes "basePath \<noteq> []" and "hd basePath = CHR ''/''"
  shows "normalized (Add_BasePath basePath)"
proof (cases "basePath = ''/''")
  case True
  then show ?thesis by (simp add: Add_BasePath_def normalized_def)
next
  case False
  let ?t = "rev (dropWhile (\<lambda>c. c = CHR ''/'') (rev basePath))"
  from assms False have A: "Add_BasePath basePath = ?t"
    by (simp add: Add_BasePath_def trimSlashes_eq hd_conv_nth)
  show ?thesis
  proof (cases "?t = []")
    case True
    with A show ?thesis by (simp add: normalized_def)
  next
    case False
    then have ne: "dropWhile (\<lambda>c. c = CHR ''/'') (rev basePath) \<noteq> []" by simp
    then have "hd (dropWhile (\<lambda>c. c = CHR ''/'') (rev basePath)) \<noteq> CHR ''/''"
      using hd_dropWhile [of "\<lambda>c. c = CHR ''/''" "rev basePath"] by simp
    with ne have l: "last ?t \<noteq> CHR ''/''" by (simp add: last_rev)
    have "rev basePath = takeWhile (\<lambda>c. c = CHR ''/'') (rev basePath) @
                         dropWhile (\<lambda>c. c = CHR ''/'') (rev basePath)"
      by simp
    then have "basePath = ?t @ rev (takeWhile (\<lambda>c. c = CHR ''/'') (rev basePath))"
      by (metis rev_append rev_rev_ident)
    with False have "hd ?t = hd basePath" by (metis hd_append2)
    with assms l A show ?thesis by (simp add: normalized_def)
  qed
qed

lemma Add_BasePath_relative:
  assumes "basePath \<noteq> []" and "hd basePath \<noteq> CHR ''/''"
  shows "Add_BasePath basePath = CHR ''/'' # basePath"
  using assms by (auto simp: Add_BasePath_def hd_conv_nth)

lemma Add_BasePath_normalized:
  assumes "normalized basePath"
  shows "Add_BasePath basePath = basePath"
proof (cases "basePath = []")
  case True
  then show ?thesis by (simp add: Add_BasePath_def)
next
  case False
  with assms have h: "hd basePath = CHR ''/''" and l: "last basePath \<noteq> CHR ''/''"
    by (simp_all add: normalized_def)
  from False l have "basePath \<noteq> ''/''" by auto
  moreover from False l have "dropWhile (\<lambda>c. c = CHR ''/'') (rev basePath) = rev basePath"
    by (cases "rev basePath") (auto simp: last_rev [symmetric] hd_rev)
  ultimately show ?thesis
    using False h by (simp add: Add_BasePath_def trimSlashes_eq hd_conv_nth)
qed

text \<open>
  Claim C6 does not hold of the code. After \<open>Add\<close> the base path is the result of the
  checks of \<open>Add\<close> on the base path before. For a base path that begins with a slash
  the result is normalized, and on a normalized base path the checks change nothing.
  But the checks are an \<open>if\<close>, \<open>else if\<close>, \<open>else\<close> chain: a base path that lacks the
  leading slash gets one and is not trimmed in the same call, so it keeps the slashes at
  its end. After one \<open>Add\<close> on a table with the base path \<open>api/\<close> the base path is
  \<open>/api/\<close>, which ends with a slash, and the checks applied to it once more change it
  to \<open>/api\<close>: they are not idempotent.
\<close>

theorem add_keeps_trailing_slash_of_relative_base_path:
  fixes r :: "('re, 'h) Router"
  shows "BasePath (fst (Router_Add lib r ruleText handler)) = Add_BasePath (BasePath r) \<and>
         (basePath \<noteq> [] \<and> hd basePath = CHR ''/'' \<longrightarrow> normalized (Add_BasePath basePath)) \<and>
         (normalized basePath \<longrightarrow> Add_BasePath basePath = basePath) \<and>
         (basePath \<noteq> [] \<and> hd basePath \<noteq> CHR ''/'' \<longrightarrow>
            Add_BasePath basePath = CHR ''/'' # basePath) \<and>
         Add_BasePath ''api/'' = ''/api/'' \<and> \<not> normalized ''/api/'' \<and>
         Add_BasePath ''/api/'' = ''/api''"
proof -
  have "Add_BasePath ''api/'' = ''/api/''" "\<not> normalized ''/api/''"
    "Add_BasePath ''/api/'' = ''/api''"
    by (simp_all add: Add_BasePath_def normalized_def)
  then show ?thesis
    using Router_Add_BasePath [of lib r ruleText handler] Add_BasePath_absolute [of basePath]
      Add_BasePath_normalized [of basePath] Add_BasePath_relative [of basePath]
    by blast
qed

text \<open>
  The base paths \<open>/api//\<close> and \<open>api\<close>, which the checks normalize, and \<open>/api\<close>, which
  they leave as it is.
\<close>

theorem add_keeps_trailing_slash_of_relative_base_path_witness:
  "''/api//'' \<noteq> [] \<and> hd ''/api//'' = CHR ''/'' \<and> Add_BasePath ''/api//'' = ''/api'' \<and>
   normalized ''/api'' \<and> Add_BasePath ''/api'' = ''/api'' \<and>
   ''api'' \<noteq> [] \<and> hd ''api'' \<noteq> CHR ''/'' \<and> Add_BasePath ''api'' = ''/api''"
proof -
  have a: "''/api//'' \<noteq> []" "hd ''/api//'' = CHR ''/''" by simp_all
  have b: "normalized ''/api''" by (simp add: normalized_def)
  have c: "''api'' \<noteq> []" "hd ''api'' \<noteq> CHR ''/''" by simp_all
  have e: "Add_BasePath ''/api//'' = ''/api''" by (simp add: Add_BasePath_def)
  note t1 = add_keeps_trailing_slash_of_relative_base_path
    [of go_regexp "\<lparr>BasePath = [], Routes = []\<rparr> :: (rx \<times> nat, nat) Router" "[]" 0 "''/api//''"]
  note t2 = add_keeps_trailing_slash_of_relative_base_path
    [of go_regexp "\<lparr>BasePath = [], Routes = []\<rparr> :: (rx \<times> nat, nat) Router" "[]" 0 "''/api''"]
  note t3 = add_keeps_trailing_slash_of_relative_base_path
    [of go_regexp "\<lparr>BasePath = [], Routes = []\<rparr> :: (rx \<times> nat, nat) Router" "[]" 0 "''api''"]
  from t1 a have "normalized (Add_BasePath ''/api//'')" by blast
  from t2 b have f: "Add_BasePath ''/api'' = ''/api''" by blast
  from t3 c have g: "Add_BasePath ''api'' = ''/api''" by simp
  from a e b f c g show ?thesis by (intro conjI)
qed

subsection \<open>A rule that compiles\<close>

lemma Parse_vars_Cons:
  fixes r :: "('re, 'h) Route"
  assumes "Parse_vars pp k (l # locs) r rp ps = Inr res"
  shows "\<exists>(r1 :: ('re, 'h) Route) rp1.
           Parse_vars pp (Suc k) locs r1 rp1 (varEnd l) = Inr res \<and>
           Vars r1 = Vars r @
             (if substring pp (keyStart l) (keyEnd l) \<noteq> ''_''
              then [(substring pp (keyStart l) (keyEnd l), k)] else []) \<and>
           IsPrefix r1 = IsPrefix r \<and> Pattern r1 = Pattern r"
  using assms by (auto simp: Let_def split: if_splits)

lemma Parse_vars_ok:
  fixes r r' :: "('re, 'h) Route"
  assumes "Parse_vars pp k locs r rp ps = Inr (r', rp', ps')"
  shows "Vars r' = Vars r @
           filter (\<lambda>(name, index). name \<noteq> ''_'')
             (zip (map (\<lambda>l. substring pp (keyStart l) (keyEnd l)) locs) [k..<k + length locs]) \<and>
         IsPrefix r' = IsPrefix r \<and> Pattern r' = Pattern r"
  using assms
proof (induction locs arbitrary: k r rp ps)
  case Nil
  then show ?case by simp
next
  case (Cons l locs)
  from Parse_vars_Cons [OF Cons.prems] obtain r1 :: "('re, 'h) Route" and rp1 where
    rec: "Parse_vars pp (Suc k) locs r1 rp1 (varEnd l) = Inr (r', rp', ps')" and
    v: "Vars r1 = Vars r @
             (if substring pp (keyStart l) (keyEnd l) \<noteq> ''_''
              then [(substring pp (keyStart l) (keyEnd l), k)] else [])" and
    f: "IsPrefix r1 = IsPrefix r" "Pattern r1 = Pattern r"
    by blast
  from Cons.IH [OF rec] v f show ?case
    by (simp add: upt_conv_Cons del: upt_Suc)
qed

lemma Parse_assemble_ok:
  fixes r R :: "('re, 'h) Route"
  assumes "Parse_assemble lib r pp locs = (R, None)"
  shows "(\<exists>re. Pattern R = Some re) \<and> IsPrefix R = IsPrefix r \<and>
         Vars R = filter (\<lambda>(name, index). name \<noteq> ''_'')
             (zip (map (\<lambda>l. substring pp (keyStart l) (keyEnd l)) locs) [0..<length locs])"
proof -
  from assms obtain r' :: "('re, 'h) Route" and rp ps re where
    pv: "Parse_vars pp 0 locs (r\<lparr>EntryPrefix := [], Vars := []\<rparr>) ''^'' 0 = Inr (r', rp, ps)"
    and R: "R = r'\<lparr>Pattern := Some re\<rparr>"
    by (auto simp: Parse_assemble_def Let_def split: sum.splits prod.splits option.splits)
  from Parse_vars_ok [OF pv] R show ?thesis by simp
qed

lemma QuoteMeta_Nil: "QuoteMeta [] = []"
  by (simp add: QuoteMeta_def)

lemma Parse_vars_Cons_pattern:
  fixes r :: "('re, 'h) Route"
  assumes "Parse_vars pp k (l # locs) r rp ps = Inr res"
  shows "\<exists>(r1 :: ('re, 'h) Route).
           Parse_vars pp (Suc k) locs r1
             (rp @ QuoteMeta (substring pp ps (varStart l)) @ ''('' @ var_body pp l @ '')'')
             (varEnd l) = Inr res"
proof -
  have chunk: "\<not> ps < varStart l \<Longrightarrow> QuoteMeta (substring pp ps (varStart l)) = []"
    by (simp add: substring_def QuoteMeta_Nil)
  have body: "(case valSpan l of
                 None \<Rightarrow> defaultVarPattern
               | Some (a, b) \<Rightarrow>
                   (let pat = substring pp a b
                    in if length pat = 0 then defaultVarPattern else pat)) = var_body pp l"
    by (simp add: var_body_def Let_def split: option.splits)
  from assms show ?thesis
    unfolding Parse_vars.simps Let_def body [unfolded Let_def]
    by (auto simp: chunk split: if_splits)
qed

lemma Parse_vars_pattern:
  fixes r r' :: "('re, 'h) Route"
  assumes "Parse_vars pp k locs r rp ps = Inr (r', rp', ps')"
  shows "rp' = rp @ concat (map (\<lambda>(start, l).
                        QuoteMeta (substring pp start (varStart l)) @
                        ''('' @ var_body pp l @ '')'')
                   (zip (ps # map varEnd locs) locs)) \<and>
         ps' = last (ps # map varEnd locs)"
  using assms
proof (induction locs arbitrary: k r rp ps)
  case Nil
  then show ?case by simp
next
  case (Cons l locs)
  from Parse_vars_Cons_pattern [OF Cons.prems] obtain r1 :: "('re, 'h) Route" where
    "Parse_vars pp (Suc k) locs r1
       (rp @ QuoteMeta (substring pp ps (varStart l)) @ ''('' @ var_body pp l @ '')'')
       (varEnd l) = Inr (r', rp', ps')"
    by blast
  from Cons.IH [OF this] show ?case by simp
qed

lemma Parse_assemble_pattern:
  fixes r R :: "('re, 'h) Route"
  assumes "Parse_assemble lib r pp (reMatchVars_FindAllSubmatchIndex pp) = (R, None)"
  shows "\<exists>re. Pattern R = Some re \<and>
              Compile lib (assembled_pattern pp (IsPrefix R)) = Some re"
proof -
  let ?locs = "reMatchVars_FindAllSubmatchIndex pp"
  from assms obtain r' :: "('re, 'h) Route" and rp ps re where
    pv: "Parse_vars pp 0 ?locs (r\<lparr>EntryPrefix := [], Vars := []\<rparr>) ''^'' 0 = Inr (r', rp, ps)"
    and c: "Compile lib
              ((if ps < length pp then rp @ QuoteMeta (drop ps pp) else rp) @
               (if \<not> IsPrefix r' then ''$'' else [])) = Some re"
    and R: "R = r'\<lparr>Pattern := Some re\<rparr>"
    by (auto simp: Parse_assemble_def Let_def split: sum.splits prod.splits option.splits if_splits)
  from Parse_vars_pattern [OF pv] have
    rp: "rp = ''^'' @ concat (map (\<lambda>(start, l).
                        QuoteMeta (substring pp start (varStart l)) @
                        ''('' @ var_body pp l @ '')'')
                   (zip (0 # map varEnd ?locs) ?locs))"
    and ps: "ps = last (0 # map varEnd ?locs)"
    by blast+
  have "(if ps < length pp then rp @ QuoteMeta (drop ps pp) else rp) @
        (if \<not> IsPrefix r' then ''$'' else []) =
        rp @ QuoteMeta (drop ps pp) @ (if IsPrefix r' then [] else ''$'')"
    by (simp add: QuoteMeta_Nil)
  also have "\<dots> = assembled_pattern pp (IsPrefix r')"
    unfolding assembled_pattern_def Let_def rp ps by (simp only: append_assoc)
  finally show ?thesis using c R by simp
qed

lemma Parse_path_ok:
  fixes r R :: "('re, 'h) Route"
  assumes "Parse_path lib r pp1 = (R, None)"
  defines "pp \<equiv> (if last pp1 = CHR ''!'' then butlast pp1 else pp1)"
  shows "IsPrefix R = (IsPrefix r \<or> last pp1 = CHR ''/'')"
    and "var_names pp = [] \<Longrightarrow> Pattern R = None \<and> Vars R = [] \<and> EntryPrefix R = pp"
    and "var_names pp \<noteq> [] \<Longrightarrow>
           (\<exists>re. Pattern R = Some re \<and>
                 Compile lib (assembled_pattern pp (IsPrefix R)) = Some re) \<and>
           Vars R = named_vars (var_names pp)"
proof -
  let ?r1 = "if last pp1 = CHR ''/'' then r\<lparr>IsPrefix := True\<rparr> else r"
  let ?locs = "reMatchVars_FindAllSubmatchIndex pp"
  have pp: "(if last pp1 \<noteq> CHR ''/'' \<and> last pp1 = CHR ''!'' then butlast pp1 else pp1) = pp"
    by (auto simp: pp_def)
  have names: "var_names pp = [] \<longleftrightarrow> ?locs = []"
    by (simp add: var_names_def)
  have R: "(R, None) = (if ?locs = []
              then (?r1\<lparr>EntryPrefix := pp, Vars := [], Pattern := None\<rparr>, None)
              else Parse_assemble lib ?r1 pp ?locs)"
    using assms(1) unfolding Parse_path_def Let_def pp by simp
  show "IsPrefix R = (IsPrefix r \<or> last pp1 = CHR ''/'')"
  proof (cases "?locs = []")
    case True
    with R show ?thesis by auto
  next
    case False
    with R have "Parse_assemble lib ?r1 pp ?locs = (R, None)" by simp
    from Parse_assemble_ok [OF this] show ?thesis by auto
  qed
  show "Pattern R = None \<and> Vars R = [] \<and> EntryPrefix R = pp" if "var_names pp = []"
    using that R names by auto
  show "(\<exists>re. Pattern R = Some re \<and>
              Compile lib (assembled_pattern pp (IsPrefix R)) = Some re) \<and>
        Vars R = named_vars (var_names pp)"
    if "var_names pp \<noteq> []"
  proof -
    from that names R have "Parse_assemble lib ?r1 pp ?locs = (R, None)" by simp
    from Parse_assemble_ok [OF this] Parse_assemble_pattern [OF this] show ?thesis
      by (simp add: named_vars_def var_names_def)
  qed
qed

lemma Route_Parse_ok:
  fixes r R :: "('re, 'h) Route"
  assumes "Route_Parse lib r ruleText = (R, None)"
  defines "pp \<equiv> rule_pathPattern ruleText"
  shows "IsPrefix R = (IsPrefix r \<or> last (TrimSpace ruleText) = CHR ''/'')"
    and "var_names pp = [] \<Longrightarrow> Pattern R = None \<and> Vars R = [] \<and> EntryPrefix R = pp"
    and "var_names pp \<noteq> [] \<Longrightarrow>
           (\<exists>re. Pattern R = Some re \<and>
                 Compile lib (assembled_pattern pp (IsPrefix R)) = Some re) \<and>
           Vars R = named_vars (var_names pp)"
proof -
  let ?pp0 = "TrimSpace ruleText"
  from assms(1) obtain i where i: "IndexByte ?pp0 CHR ''/'' = Some i"
    by (cases "IndexByte ?pp0 CHR ''/''") (auto simp: Route_Parse_def)
  let ?condstr = "Trim (take i ?pp0) [CHR ''|'', CHR '' '', CHR 0x09, CHR 0x0D, CHR 0x0A]"
  let ?pp1 = "if length ?condstr > 0 then drop i ?pp0 else ?pp0"
  from IndexByte_Some [OF i] have il: "i < length ?pp0" by simp
  then have last: "last ?pp1 = last ?pp0" by (simp add: last_drop)
  from assms(1) i obtain conds where
    path: "Parse_path lib (r\<lparr>Conditions := conds\<rparr>) ?pp1 = (R, None)"
    by (auto simp: Route_Parse_def Let_def split: sum.splits if_splits)
  have pp: "pp = (if last ?pp1 = CHR ''!'' then butlast ?pp1 else ?pp1)"
    using i by (simp add: pp_def rule_pathPattern_def Let_def)
  note ok = Parse_path_ok [OF path, folded pp]
  from ok(1) last show "IsPrefix R = (IsPrefix r \<or> last (TrimSpace ruleText) = CHR ''/'')"
    by simp
  from ok(2) show "var_names pp = [] \<Longrightarrow> Pattern R = None \<and> Vars R = [] \<and> EntryPrefix R = pp" .
  from ok(3) show "var_names pp \<noteq> [] \<Longrightarrow>
           (\<exists>re. Pattern R = Some re \<and>
                 Compile lib (assembled_pattern pp (IsPrefix R)) = Some re) \<and>
           Vars R = named_vars (var_names pp)" .
qed

subsection \<open>Routes without variables\<close>

lemma route_matches_plain:
  fixes route :: "('re, 'h) Route"
  assumes "Pattern route = None" and "\<not> conditions_skip route conds"
  shows "route_matches lib route conds path \<longleftrightarrow>
         (if IsPrefix route then prefix (EntryPrefix route) path else path = EntryPrefix route)"
  using assms
  by (auto simp: route_matches_def prefix_skip_def route_try_def HasPrefix_def)

lemma Router_Match_selects:
  fixes r :: "('re, 'h) Router"
  assumes "BasePath r = [] \<or> HasPrefix path (BasePath r)"
    and "k < length (Routes r)"
    and "\<forall>j < k. \<not> route_matches lib (Routes r ! j) conds (remaining_path r path)"
  shows "(\<exists>m. Router_Match lib r conds path = Inr (Some m) \<and> RoutePtr m = k) \<longleftrightarrow>
         route_matches lib (Routes r ! k) conds (remaining_path r path)"
proof
  assume "\<exists>m. Router_Match lib r conds path = Inr (Some m) \<and> RoutePtr m = k"
  then obtain m where "Match_scan lib (Routes r) 0 conds (remaining_path r path) = Some m"
    and "RoutePtr m = k"
    by (auto simp: Router_Match_in_scope [OF assms(1)])
  with Match_scan_Some [of lib "Routes r" 0 conds "remaining_path r path" m]
  show "route_matches lib (Routes r ! k) conds (remaining_path r path)" by simp
next
  assume "route_matches lib (Routes r ! k) conds (remaining_path r path)"
  from Match_scan_first [OF assms(2) this assms(3), of 0]
  show "\<exists>m. Router_Match lib r conds path = Inr (Some m) \<and> RoutePtr m = k"
    by (simp add: Router_Match_in_scope [OF assms(1)])
qed

text \<open>
  Claim C4. Let \<open>R\<close> be the route compiled from a rule without variables, standing at
  position \<open>k\<close> of a table with the handler it was registered with. Its literal path
  (\<open>EntryPrefix\<close>) is the path pattern of the rule, and it is a subtree route exactly
  when the rule text ends with a slash. For every request it accepts by its conditions,
  with a path inside the base path that no earlier route of the table matches: \<open>Match\<close>
  returns route \<open>k\<close> if and only if the remaining path starts with the literal path,
  when \<open>R\<close> is a subtree route, or is equal to it, when \<open>R\<close> is an exact route.
\<close>

theorem variable_free_route_match:
  fixes r :: "('re, 'h) Router" and R :: "('re, 'h) Route"
  assumes "Route_Parse lib Route_zero ruleText = (R, None)"
    and "var_names (rule_pathPattern ruleText) = []"
    and "k < length (Routes r)"
    and "Routes r ! k = R\<lparr>Handler := handler\<rparr>"
    and "BasePath r = [] \<or> HasPrefix path (BasePath r)"
    and "\<not> conditions_skip (Routes r ! k) conds"
    and "\<forall>j < k. \<not> route_matches lib (Routes r ! j) conds (remaining_path r path)"
  shows "EntryPrefix (Routes r ! k) = rule_pathPattern ruleText \<and>
         IsPrefix (Routes r ! k) = (last (TrimSpace ruleText) = CHR ''/'') \<and>
         ((\<exists>m. Router_Match lib r conds path = Inr (Some m) \<and> RoutePtr m = k) \<longleftrightarrow>
          (if IsPrefix (Routes r ! k)
           then prefix (rule_pathPattern ruleText) (remaining_path r path)
           else remaining_path r path = rule_pathPattern ruleText))"
proof -
  from Route_Parse_ok(1) [OF assms(1)] Route_Parse_ok(2) [OF assms(1,2)] assms(4)
  have f: "Pattern (Routes r ! k) = None"
    "EntryPrefix (Routes r ! k) = rule_pathPattern ruleText"
    "IsPrefix (Routes r ! k) = (last (TrimSpace ruleText) = CHR ''/'')"
    by (simp_all add: Route_zero_def)
  from Router_Match_selects [OF assms(5,3,7)] route_matches_plain [OF f(1) assms(6)] f(2,3)
  show ?thesis by simp
qed

text \<open>
  The subtree rule of scenario B, selected for a path under it, and the exact rule
  \<open>/foo/!\<close>, selected for \<open>/foo/\<close> and not for \<open>/foo/x\<close>.
\<close>

theorem variable_free_route_match_witness:
  "snd (Route_Parse go_regexp (Route_zero :: (rx \<times> nat, nat) Route) ''GET /widgets/'') = None \<and>
   var_names (rule_pathPattern ''GET /widgets/'') = [] \<and>
   rule_pathPattern ''GET /widgets/'' = ''/widgets/'' \<and>
   IsPrefix (Routes scenario_B ! 0) \<and>
   prefix ''/widgets/'' (remaining_path scenario_B ''/api/widgets/anything'') \<and>
   (\<exists>m. Router_Match go_regexp scenario_B CondMethodGET ''/api/widgets/anything'' = Inr (Some m)
        \<and> RoutePtr m = 0) \<and>
   snd (Route_Parse go_regexp (Route_zero :: (rx \<times> nat, nat) Route) ''/foo/!'') = None \<and>
   var_names (rule_pathPattern ''/foo/!'') = [] \<and>
   rule_pathPattern ''/foo/!'' = ''/foo/'' \<and>
   \<not> IsPrefix (Routes exact_table ! 0) \<and>
   (\<exists>m. Router_Match go_regexp exact_table 0 ''/foo/'' = Inr (Some m) \<and> RoutePtr m = 0) \<and>
   Router_Match go_regexp exact_table 0 ''/foo/x'' = Inr None"
proof -
  let ?zero = "Route_zero :: (rx \<times> nat, nat) Route"
  let ?B = "fst (Route_Parse go_regexp ?zero ''GET /widgets/'')"
  let ?E = "fst (Route_Parse go_regexp ?zero ''/foo/!'')"
  have sB: "snd (Route_Parse go_regexp ?zero ''GET /widgets/'') = None" by code_simp
  have sE: "snd (Route_Parse go_regexp ?zero ''/foo/!'') = None" by code_simp
  from sB have pB: "Route_Parse go_regexp ?zero ''GET /widgets/'' = (?B, None)"
    by (simp add: prod_eq_iff)
  from sE have pE: "Route_Parse go_regexp ?zero ''/foo/!'' = (?E, None)"
    by (simp add: prod_eq_iff)
  have vB: "var_names (rule_pathPattern ''GET /widgets/'') = []" by code_simp
  have vE: "var_names (rule_pathPattern ''/foo/!'') = []" by code_simp
  have lB: "rule_pathPattern ''GET /widgets/'' = ''/widgets/''" by code_simp
  have lE: "rule_pathPattern ''/foo/!'' = ''/foo/''" by code_simp
  have kB: "0 < length (Routes scenario_B)" and kE: "0 < length (Routes exact_table)"
    by code_simp+
  have eB: "Routes scenario_B ! 0 = ?B\<lparr>Handler := Some 1\<rparr>"
    by (simp add: scenario_B_def Router_Add_success [OF sB])
  have eE: "Routes exact_table ! 0 = ?E\<lparr>Handler := Some 1\<rparr>"
    by (simp add: exact_table_def Router_Add_success [OF sE])
  have scB: "BasePath scenario_B = [] \<or> HasPrefix ''/api/widgets/anything'' (BasePath scenario_B)"
    by code_simp
  have scE: "BasePath exact_table = [] \<or> HasPrefix ''/foo/'' (BasePath exact_table)"
    by code_simp
  have aB: "\<not> conditions_skip (Routes scenario_B ! 0) CondMethodGET" by code_simp
  have aE: "\<not> conditions_skip (Routes exact_table ! 0) 0" by code_simp
  have nB: "\<forall>j < 0. \<not> route_matches go_regexp (Routes scenario_B ! j) CondMethodGET
              (remaining_path scenario_B ''/api/widgets/anything'')" by simp
  have nE: "\<forall>j < 0. \<not> route_matches go_regexp (Routes exact_table ! j) 0
              (remaining_path exact_table ''/foo/'')" by simp
  note tB = variable_free_route_match [OF pB vB kB eB scB aB nB]
  note tE = variable_free_route_match [OF pE vE kE eE scE aE nE]
  have iB: "IsPrefix (Routes scenario_B ! 0)" by code_simp
  have iE: "\<not> IsPrefix (Routes exact_table ! 0)" by code_simp
  have prB: "prefix ''/widgets/'' (remaining_path scenario_B ''/api/widgets/anything'')"
    by code_simp
  have rE: "remaining_path exact_table ''/foo/'' = ''/foo/''" by code_simp
  from tB iB prB lB have mB:
    "\<exists>m. Router_Match go_regexp scenario_B CondMethodGET ''/api/widgets/anything'' = Inr (Some m)
        \<and> RoutePtr m = 0" by simp
  from tE iE rE lE have mE:
    "\<exists>m. Router_Match go_regexp exact_table 0 ''/foo/'' = Inr (Some m) \<and> RoutePtr m = 0"
    by simp
  have xE: "Router_Match go_regexp exact_table 0 ''/foo/x'' = Inr None" by code_simp
  from sB vB lB iB prB mB sE vE lE iE mE xE show ?thesis by (intro conjI)
qed

subsection \<open>Routes with variables\<close>

lemma named_vars_anonymous:
  assumes "''_'' \<in> set names"
  shows "length (named_vars names) < length names"
proof -
  from assms obtain i where i: "i < length names" "names ! i = ''_''"
    by (auto simp: in_set_conv_nth)
  then have "(''_'', i) \<in> set (zip names [0..<length names])"
    by (auto simp: in_set_zip intro!: exI [of _ i])
  then have "length (named_vars names) < length (zip names [0..<length names])"
    unfolding named_vars_def by (intro length_filter_less [of "(''_'', i)"]) auto
  then show ?thesis by simp
qed


lemma route_try_pattern:
  fixes route :: "('re, 'h) Route"
  assumes "Pattern route = Some re" and "route_try lib route path = Some vals"
  shows "length (FindStringSubmatch lib re path) = 1 + length (Vars route) \<and>
         vals = drop 1 (FindStringSubmatch lib re path)"
  using assms by (auto simp: route_try_def Let_def split: if_splits)

lemma Router_Match_Some:
  fixes r :: "('re, 'h) Router"
  assumes "Router_Match lib r conds path = Inr (Some m)"
  shows "RoutePtr m < length (Routes r) \<and>
         route_matches lib (Routes r ! RoutePtr m) conds (remaining_path r path) \<and>
         route_try lib (Routes r ! RoutePtr m) (remaining_path r path) = Some (values_m m)"
proof -
  from assms have "BasePath r = [] \<or> HasPrefix path (BasePath r)"
    by (auto simp: Router_Match_def split: if_splits)
  from assms Router_Match_in_scope [OF this, of lib conds]
  have "Match_scan lib (Routes r) 0 conds (remaining_path r path) = Some m" by simp
  from Match_scan_Some [OF this] show ?thesis by simp
qed

text \<open>
  Claim C1 does not hold of the code. \<open>Route.Parse\<close> gives an anonymous variable its
  capture group and leaves it out of \<open>Vars\<close>; \<open>Router.Match\<close> compares the number of
  submatches with \<open>1 + len(route.Vars)\<close>, which counts the named variables only. So a
  route compiled from a rule with an anonymous variable is never returned for a path on
  which its compiled pattern yields a submatch for the whole match and for each declared
  variable, as the pattern of Go's library does on every path it accepts.
\<close>

theorem anonymous_variable_route_never_selected:
  fixes r :: "('re, 'h) Router" and R :: "('re, 'h) Route"
  assumes "Route_Parse lib Route_zero ruleText = (R, None)"
    and "''_'' \<in> set (var_names (rule_pathPattern ruleText))"
    and "k < length (Routes r)"
    and "Routes r ! k = R\<lparr>Handler := handler\<rparr>"
    and "Pattern R = Some re"
    and "1 + length (var_names (rule_pathPattern ruleText)) \<le>
           length (FindStringSubmatch lib re (remaining_path r path))"
  shows "\<forall>m. Router_Match lib r conds path = Inr (Some m) \<longrightarrow> RoutePtr m \<noteq> k"
proof (intro allI impI notI)
  fix m
  assume m: "Router_Match lib r conds path = Inr (Some m)" and "RoutePtr m = k"
  let ?names = "var_names (rule_pathPattern ruleText)"
  from assms(2) have ne: "?names \<noteq> []" by auto
  from Route_Parse_ok(3) [OF assms(1) ne] have "Vars R = named_vars ?names" by simp
  with named_vars_anonymous [OF assms(2)] have less: "length (Vars R) < length ?names"
    by simp
  from Router_Match_Some [OF m] \<open>RoutePtr m = k\<close> assms(4)
  have "route_try lib (R\<lparr>Handler := handler\<rparr>) (remaining_path r path) = Some (values_m m)"
    by simp
  from route_try_pattern [OF _ this, of re] assms(5)
  have "length (FindStringSubmatch lib re (remaining_path r path)) = 1 + length (Vars R)"
    by simp
  with less assms(6) show False by simp
qed

text \<open>
  The rule \<open>/a/{_}\<close> and the path \<open>/a/x\<close>: the compiled pattern yields two
  submatches, one more than the one declared variable, and \<open>Match\<close> finds no route.
\<close>

theorem anonymous_variable_route_never_selected_witness:
  "snd (Route_Parse go_regexp (Route_zero :: (rx \<times> nat, nat) Route) ''/a/{_}'') = None \<and>
   var_names (rule_pathPattern ''/a/{_}'') = [''_''] \<and>
   Vars (Routes anonymous_table ! 0) = [] \<and>
   (\<exists>re. Pattern (Routes anonymous_table ! 0) = Some re \<and>
         FindStringSubmatch go_regexp re ''/a/x'' = [''/a/x'', ''x'']) \<and>
   Router_Match go_regexp anonymous_table 0 ''/a/x'' = Inr None"
proof -
  let ?zero = "Route_zero :: (rx \<times> nat, nat) Route"
  let ?R = "fst (Route_Parse go_regexp ?zero ''/a/{_}'')"
  let ?re = "the (Pattern ?R)"
  have s: "snd (Route_Parse go_regexp ?zero ''/a/{_}'') = None" by code_simp
  then have p: "Route_Parse go_regexp ?zero ''/a/{_}'' = (?R, None)"
    by (simp add: prod_eq_iff)
  have n: "var_names (rule_pathPattern ''/a/{_}'') = [''_'']" by code_simp
  then have a: "''_'' \<in> set (var_names (rule_pathPattern ''/a/{_}''))" by simp
  have k: "0 < length (Routes anonymous_table)" by code_simp
  have e: "Routes anonymous_table ! 0 = ?R\<lparr>Handler := Some 1\<rparr>"
    by (simp add: anonymous_table_def Router_Add_success [OF s])
  have "Pattern ?R \<noteq> None" by code_simp
  then have re: "Pattern ?R = Some ?re" by simp
  have rp: "remaining_path anonymous_table ''/a/x'' = ''/a/x''" by code_simp
  have f: "FindStringSubmatch go_regexp ?re ''/a/x'' = [''/a/x'', ''x'']" by code_simp
  have l: "1 + length (var_names (rule_pathPattern ''/a/{_}'')) \<le>
           length (FindStringSubmatch go_regexp ?re (remaining_path anonymous_table ''/a/x''))"
    by (simp add: n rp f)
  note t = anonymous_variable_route_never_selected [OF p a k e re l, of 0]
  have v: "Vars (Routes anonymous_table ! 0) = []" by code_simp
  have x: "\<exists>re. Pattern (Routes anonymous_table ! 0) = Some re \<and>
         FindStringSubmatch go_regexp re ''/a/x'' = [''/a/x'', ''x'']"
  proof (intro exI conjI)
    from re e show "Pattern (Routes anonymous_table ! 0) = Some ?re" by simp
    from f show "FindStringSubmatch go_regexp ?re ''/a/x'' = [''/a/x'', ''x'']" .
  qed
  have "Router_Match go_regexp anonymous_table 0 ''/a/x'' = Inr None"
  proof (cases "Router_Match go_regexp anonymous_table 0 ''/a/x''")
    case (Inl err)
    then show ?thesis by (simp add: Router_Match_def anonymous_table_def Router_Add_BasePath Add_BasePath_def)
  next
    case (Inr mo)
    show ?thesis
    proof (cases mo)
      case None
      with Inr show ?thesis by simp
    next
      case (Some m)
      with Inr t have "RoutePtr m \<noteq> 0" by simp
      moreover from Router_Match_Some [of go_regexp anonymous_table 0 "''/a/x''" m] Inr Some
      have "RoutePtr m < length (Routes anonymous_table)" by simp
      moreover have "length (Routes anonymous_table) = 1" by code_simp
      ultimately show ?thesis by simp
    qed
  qed
  with s n v x show ?thesis by (intro conjI)
qed






subsection \<open>The parser of the reference library\<close>



























subsection \<open>The expression compiled from an assembly\<close>




















subsection \<open>The entry prefix of a route with variables\<close>









subsection \<open>The test of the entry prefix\<close>








end
